theory Spec2Isabelle
  imports Main "HOL-Library.Product_Lexorder" "HOL-Library.Multiset"
begin

section \<open>Barcode Scan API: data model\<close>

text \<open>
  The program is \<^verbatim>\<open>src/backend/main.py\<close>: four request handlers over one SQLite table
  \<^verbatim>\<open>scans(id, barcode, scanned_at)\<close>, reached through SQLAlchemy. Each handler is
  embedded as a function from its arguments and the stored table to its result and the
  table afterwards. An exception that a handler does not catch is the response 500
  \<^verbatim>\<open>Internal Server Error\<close>. The calls into the storage are given the meaning they have on
  the configured engine (line 14, \<^verbatim>\<open>DATABASE_URL = "sqlite:///./scans.db"\<close>):
  \<^item> a string parameter is sent as UTF-8, which fails for a lone surrogate; an integer
    parameter must fit 64 bits; a string or a row beyond 1000000000 bytes is refused;
  \<^item> line 100, \<^verbatim>\<open>ScanDB.barcode.contains(barcode_query)\<close>, is
    \<^verbatim>\<open>barcode LIKE '%' || ? || '%'\<close>. SQLite's \<^verbatim>\<open>LIKE\<close> reads pattern and text up to the
    first NUL, reads U+FFFE and U+FFFF as U+FFFD, treats \<^verbatim>\<open>%\<close> and \<^verbatim>\<open>_\<close> in the pattern as
    wildcards, compares ASCII letters without regard to case, and refuses a pattern of
    more than 50000 bytes when it meets one;
  \<^item> line 23, \<^verbatim>\<open>id = Column(Integer, primary_key=True, index=True)\<close>, is an
    \<^verbatim>\<open>INTEGER PRIMARY KEY\<close> without \<^verbatim>\<open>AUTOINCREMENT\<close>: an inserted row receives one more
    than the largest key currently in the table, 1 in an empty table, and a key picked
    at random among the unused ones once the largest key \<open>2^63 - 1\<close> is in use;
  \<^item> lines 84, 85 and 102: \<^verbatim>\<open>skip\<close> and \<^verbatim>\<open>limit\<close> are integers without a bound and go
    to \<^verbatim>\<open>OFFSET\<close> and \<^verbatim>\<open>LIMIT\<close> as they are; a negative \<^verbatim>\<open>LIMIT\<close> is no upper bound, a
    negative \<^verbatim>\<open>OFFSET\<close> is 0, and with \<^verbatim>\<open>LIMIT 0\<close> no row is read at all;
  \<^item> \<^verbatim>\<open>ORDER BY\<close> leaves the order of rows with equal keys to the engine, which keeps
    them in the order of the table, in the listing and in the export alike.
  The writer of the workbook is given the behaviour of pandas with openpyxl: a sheet
  holds at most \<open>2^20\<close> rows of data, a number is a double, a text is cut to 32767
  characters and must not hold one of the control characters that the writer refuses,
  and a text that starts with \<^verbatim>\<open>=\<close> or is an error code is not written as a string.
  Not modelled: the bytes of the xlsx file; U+FFFE and U+FFFF in a cell, which are no
  XML characters; time zones of the query parameters; NULL columns, which no handler
  stores; and storage failures other than those named above and those of the delete
  handler.
\<close>

subsection \<open>Strings\<close>

text \<open>
  A Python \<^verbatim>\<open>str\<close> is a sequence of Unicode code points, at most \<open>0x10FFFF\<close> each. The
  surrogates \<open>0xD800\<close> to \<open>0xDFFF\<close> can occur in it (JSON can spell them) but have no
  UTF-8 encoding.
\<close>

type_synonym str = "nat list"

definition lit :: "string \<Rightarrow> str" where
  "lit s = map of_char s"

text \<open>\<^verbatim>\<open>str(n)\<close> and \<^verbatim>\<open>f"{n}"\<close> for a non-negative integer: its decimal digits.\<close>

fun str_nat :: "nat \<Rightarrow> str" where
  "str_nat n = (if n < 10 then [48 + n] else str_nat (n div 10) @ [48 + n mod 10])"

declare str_nat.simps [simp del]

text \<open>Padding with zeros on the left to a width, as \<^verbatim>\<open>%02d\<close> does.\<close>

definition zfill :: "nat \<Rightarrow> str \<Rightarrow> str" where
  "zfill w s = replicate (w - length s) 48 @ s"

text \<open>\<^verbatim>\<open>s.encode('utf-8')\<close> succeeds, and the number of bytes it gives.\<close>

definition utf8_char_ok :: "nat \<Rightarrow> bool" where
  "utf8_char_ok c \<longleftrightarrow> c < 55296 \<or> (57343 < c \<and> c \<le> 1114111)"

definition encodable :: "str \<Rightarrow> bool" where
  "encodable s = list_all utf8_char_ok s"

definition utf8_char_len :: "nat \<Rightarrow> nat" where
  "utf8_char_len c = (if c < 128 then 1 else if c < 2048 then 2 else if c < 65536 then 3 else 4)"

definition utf8_len :: "str \<Rightarrow> nat" where
  "utf8_len s = sum_list (map utf8_char_len s)"

text \<open>A raised exception is represented by its text.\<close>

type_synonym exception = str

fun sequence :: "(exception + 'a) list \<Rightarrow> exception + 'a list" where
  "sequence [] = Inr []"
| "sequence (x # xs) =
     (case x of Inl e \<Rightarrow> Inl e
      | Inr v \<Rightarrow> (case sequence xs of Inl e \<Rightarrow> Inl e | Inr vs \<Rightarrow> Inr (v # vs)))"

subsection \<open>Timestamps\<close>

text \<open>
  A naive \<^verbatim>\<open>datetime\<close>. Python compares two of them field by field, and the column
  type stores them as \<^verbatim>\<open>YYYY-MM-DD HH:MM:SS.ffffff\<close> text, which SQLite compares the
  same way.
\<close>

record datetime =
  year :: nat
  month :: nat
  day :: nat
  hour :: nat
  minute :: nat
  second :: nat
  microsecond :: nat

text \<open>\<^verbatim>\<open>datetime(year, month, day, hour, minute, second, microsecond)\<close>.\<close>

definition mk_datetime :: "nat \<Rightarrow> nat \<Rightarrow> nat \<Rightarrow> nat \<Rightarrow> nat \<Rightarrow> nat \<Rightarrow> nat \<Rightarrow> datetime" where
  "mk_datetime y mo d h mi s us =
     \<lparr>year = y, month = mo, day = d, hour = h, minute = mi, second = s, microsecond = us\<rparr>"

definition dt_key :: "datetime \<Rightarrow> nat \<times> nat \<times> nat \<times> nat \<times> nat \<times> nat \<times> nat" where
  "dt_key d = (year d, month d, day d, hour d, minute d, second d, microsecond d)"


text \<open>
  \<^verbatim>\<open>.dt.strftime('%Y-%m-%d %H:%M:%S')\<close> of pandas: the year padded to four digits, the
  other fields to two.
\<close>

definition strftime_Ymd_HMS :: "datetime \<Rightarrow> str" where
  "strftime_Ymd_HMS d =
     zfill 4 (str_nat (year d)) @ lit ''-'' @ zfill 2 (str_nat (month d)) @ lit ''-'' @
     zfill 2 (str_nat (day d)) @ lit '' '' @ zfill 2 (str_nat (hour d)) @ lit '':'' @
     zfill 2 (str_nat (minute d)) @ lit '':'' @ zfill 2 (str_nat (second d))"

subsection \<open>The table and the schemas\<close>

text \<open>\<^verbatim>\<open>class ScanDB(Base)\<close>: one row of the table. The field \<^verbatim>\<open>id\<close> is \<open>id_pk\<close> here.\<close>

record ScanDB =
  id_pk :: int
  barcode :: str
  scanned_at :: datetime

text \<open>\<^verbatim>\<open>class ScanCreate(ScanBase)\<close>: the request body of the create operation.\<close>

datatype ScanCreate = ScanCreate (create_barcode: str)

text \<open>
  The JSON body of a request, and its validation against \<^verbatim>\<open>ScanCreate\<close>: the one field
  \<^verbatim>\<open>barcode\<close> must be present and a string; any other member of the body is ignored.
  Of two members with the same name the later one counts.
\<close>

datatype json = JNull | JBool bool | JNum int | JStr str | JOther

datatype HTTPException = HTTPException (status_code: nat) (detail: str)

definition internal_server_error :: HTTPException where
  "internal_server_error = HTTPException 500 (lit ''Internal Server Error'')"

fun json_get :: "str \<Rightarrow> (str \<times> json) list \<Rightarrow> json option" where
  "json_get k [] = None"
| "json_get k ((k', v) # kvs) = (case json_get k kvs of Some w \<Rightarrow> Some w
     | None \<Rightarrow> (if k' = k then Some v else None))"

definition validate_ScanCreate :: "(str \<times> json) list \<Rightarrow> HTTPException + ScanCreate" where
  "validate_ScanCreate body =
     (case json_get (lit ''barcode'') body of
        Some (JStr b) \<Rightarrow> Inr (ScanCreate b)
      | _ \<Rightarrow> Inl (HTTPException 422 (lit ''barcode'')))"

subsection \<open>The engine\<close>

text \<open>An integer that can be bound to a parameter: a signed integer of 64 bits.\<close>

definition sqlite_integer :: "int \<Rightarrow> bool" where
  "sqlite_integer i \<longleftrightarrow> - 9223372036854775808 \<le> i \<and> i \<le> 9223372036854775807"

text \<open>
  A barcode that can be stored: it has a UTF-8 encoding, and its row fits the limit of
  1000000000 bytes. The row is the barcode, the 26 characters of the timestamp, and a
  header of three bytes and the variable-length integer \<open>2 n + 13\<close> for a barcode of
  \<open>n\<close> bytes.
\<close>

definition varint_len :: "nat \<Rightarrow> nat" where
  "varint_len v =
     (if v < 128 then 1 else if v < 16384 then 2 else if v < 2097152 then 3
      else if v < 268435456 then 4 else if v < 34359738368 then 5 else 9)"

definition row_bytes :: "str \<Rightarrow> nat" where
  "row_bytes b = utf8_len b + 29 + varint_len (2 * utf8_len b + 13)"

definition storable :: "str \<Rightarrow> bool" where
  "storable b \<longleftrightarrow> encodable b \<and> row_bytes b \<le> 1000000000"

text \<open>
  The key of an inserted row. \<open>pick\<close> is the unused key that the engine finds at random
  when the largest key is in use, if it finds one.
\<close>

definition next_rowid :: "int option \<Rightarrow> ScanDB list \<Rightarrow> int option" where
  "next_rowid pick tbl =
     (case tbl of
        [] \<Rightarrow> Some 1
      | r # rs \<Rightarrow>
          (let largest = fold max (map id_pk rs) (id_pk r)
           in if largest < 9223372036854775807 then Some (largest + 1)
              else (case pick of
                      None \<Rightarrow> None
                    | Some k \<Rightarrow>
                        if 1 \<le> k \<and> k \<le> 4611686018427387904 \<and> k \<notin> set (map id_pk tbl)
                        then Some k else None)))"

definition insert_row ::
  "int option \<Rightarrow> str \<Rightarrow> datetime \<Rightarrow> ScanDB list \<Rightarrow> exception + int \<times> ScanDB list" where
  "insert_row pick b t tbl =
     (if \<not> encodable b then Inl (lit ''UnicodeEncodeError'')
      else if \<not> storable b then Inl (lit ''string or blob too big'')
      else (case next_rowid pick tbl of
              None \<Rightarrow> Inl (lit ''database or disk is full'')
            | Some k \<Rightarrow> Inr (k, tbl @ [\<lparr>id_pk = k, barcode = b, scanned_at = t\<rparr>])))"

text \<open>
  \<^verbatim>\<open>LIKE\<close>. A character is read with U+FFFE, U+FFFF and the surrogates replaced by
  U+FFFD, a text is read up to its first NUL. \<^verbatim>\<open>%\<close> (37) matches any run of characters,
  \<^verbatim>\<open>_\<close> (95) any one character, and two characters are equal when they are equal after
  folding the ASCII letters A to Z to lower case.
\<close>

definition sqlite_char :: "nat \<Rightarrow> nat" where
  "sqlite_char c =
     (if c = 65534 \<or> c = 65535 \<or> (55296 \<le> c \<and> c \<le> 57343) then 65533 else c)"

definition sqlite_text :: "str \<Rightarrow> str" where
  "sqlite_text s = map sqlite_char (takeWhile (\<lambda>c. c \<noteq> 0) s)"

definition ascii_lower :: "nat \<Rightarrow> nat" where
  "ascii_lower c = (if 65 \<le> c \<and> c \<le> 90 then c + 32 else c)"

fun like_match :: "str \<Rightarrow> str \<Rightarrow> bool" where
  "like_match [] s = (s = [])"
| "like_match (p # ps) [] = (p = 37 \<and> like_match ps [])"
| "like_match (p # ps) (c # s) =
     (if p = 37 then like_match ps (c # s) \<or> like_match (p # ps) s
      else (p = 95 \<or> ascii_lower p = ascii_lower c) \<and> like_match ps s)"

definition sqlite_like :: "str \<Rightarrow> str \<Rightarrow> bool" where
  "sqlite_like pattern s = like_match (sqlite_text pattern) (sqlite_text s)"

text \<open>\<^verbatim>\<open>ORDER BY scanned_at DESC\<close>, \<^verbatim>\<open>OFFSET\<close> and \<^verbatim>\<open>LIMIT\<close> on the rows of a result.\<close>

fun insert_desc :: "ScanDB \<Rightarrow> ScanDB list \<Rightarrow> ScanDB list" where
  "insert_desc x [] = [x]"
| "insert_desc x (y # ys) =
     (if dt_key (scanned_at y) \<le> dt_key (scanned_at x) then x # y # ys
      else y # insert_desc x ys)"

definition sqlite_order_desc :: "ScanDB list \<Rightarrow> ScanDB list" where
  "sqlite_order_desc rs = foldr insert_desc rs []"

definition sqlite_offset :: "int \<Rightarrow> 'a list \<Rightarrow> 'a list" where
  "sqlite_offset n rs = (if n < 0 then rs else drop (nat n) rs)"

definition sqlite_limit :: "int \<Rightarrow> 'a list \<Rightarrow> 'a list" where
  "sqlite_limit n rs = (if n < 0 then rs else take (nat n) rs)"

subsection \<open>The session and the query\<close>

text \<open>
  \<^verbatim>\<open>get_db\<close> opens a session per request and closes it afterwards. A session sees the
  table through its transaction: \<open>txn\<close> is the table as the open transaction has changed
  it, \<open>committed\<close> the durable table, \<open>new\<close> the objects added and not yet inserted.
  Closing the session drops what was not committed.
\<close>

record Session =
  committed :: "ScanDB list"
  txn :: "ScanDB list"
  new :: "(str \<times> datetime) list"

definition SessionLocal :: "ScanDB list \<Rightarrow> Session" where
  "SessionLocal tbl = \<lparr>committed = tbl, txn = tbl, new = []\<rparr>"

definition db_close :: "Session \<Rightarrow> ScanDB list" where
  "db_close db = committed db"

text \<open>
  What the storage does to the delete handler during one call: nothing goes wrong, or
  the DELETE statement raises with the given text, leaving the open transaction with the
  given rows, or the commit raises with the given text and commits nothing. In both
  cases the rollback that follows works, or raises in its turn.
\<close>

datatype recovery = RollbackWorks | RollbackFails exception

datatype fault =
  NoFault
| DeleteFails exception "ScanDB list" recovery
| CommitFails exception recovery

definition recovery_of :: "fault \<Rightarrow> recovery" where
  "recovery_of f =
     (case f of NoFault \<Rightarrow> RollbackWorks | DeleteFails e partial r \<Rightarrow> r | CommitFails e r \<Rightarrow> r)"

text \<open>\<^verbatim>\<open>db.rollback()\<close>.\<close>

definition db_rollback :: "fault \<Rightarrow> Session \<Rightarrow> (exception + unit) \<times> Session" where
  "db_rollback f db =
     (case recovery_of f of
        RollbackFails e \<Rightarrow> (Inl e, db)
      | RollbackWorks \<Rightarrow> (Inr (), db\<lparr>txn := committed db, new := []\<rparr>))"

text \<open>\<^verbatim>\<open>db.add(db_scan)\<close>.\<close>

definition db_add :: "str \<times> datetime \<Rightarrow> Session \<Rightarrow> Session" where
  "db_add db_scan db = db\<lparr>new := new db @ [db_scan]\<rparr>"

text \<open>
  \<^verbatim>\<open>db.commit()\<close>: the new objects are inserted, which gives each its key, and the
  transaction is committed. The result holds the keys in the order of the objects.
\<close>

fun flush ::
  "int option \<Rightarrow> (str \<times> datetime) list \<Rightarrow> ScanDB list \<Rightarrow> exception + int list \<times> ScanDB list" where
  "flush pick [] tbl = Inr ([], tbl)"
| "flush pick ((b, t) # objs) tbl =
     (case insert_row pick b t tbl of
        Inl e \<Rightarrow> Inl e
      | Inr (k, tbl') \<Rightarrow>
          (case flush pick objs tbl' of
             Inl e \<Rightarrow> Inl e
           | Inr (ks, tbl'') \<Rightarrow> Inr (k # ks, tbl'')))"

definition db_commit ::
  "fault \<Rightarrow> int option \<Rightarrow> Session \<Rightarrow> (exception + int list) \<times> Session" where
  "db_commit f pick db =
     (case f of
        CommitFails e r \<Rightarrow> (Inl e, db)
      | _ \<Rightarrow>
          (case flush pick (new db) (txn db) of
             Inl e \<Rightarrow> (Inl e, db)
           | Inr (ks, tbl) \<Rightarrow> (Inr ks, db\<lparr>committed := tbl, txn := tbl, new := []\<rparr>)))"

text \<open>\<^verbatim>\<open>db.refresh(db_scan)\<close>: the row is read again by its primary key.\<close>

definition db_refresh :: "int \<Rightarrow> Session \<Rightarrow> ScanDB option" where
  "db_refresh k db = find (\<lambda>r. id_pk r = k) (txn db)"

text \<open>
  A query is built first and run by \<^verbatim>\<open>.all()\<close>. \<^verbatim>\<open>db.query(ScanDB)\<close> selects every row;
  the methods that the handlers call add a condition, the order, the offset and the
  limit.
\<close>

record Query =
  scanned_from :: "datetime option"
  scanned_before :: "datetime option"
  barcode_contains :: "str option"
  ordered :: bool
  offset_by :: "int option"
  limit_to :: "int option"

definition db_query :: Query where
  "db_query = \<lparr>scanned_from = None, scanned_before = None, barcode_contains = None,
                ordered = False, offset_by = None, limit_to = None\<rparr>"

text \<open>
  The three \<^verbatim>\<open>if\<close> statements that both \<^verbatim>\<open>read_scans\<close> and \<^verbatim>\<open>export_scans\<close> start with.
  A \<^verbatim>\<open>datetime\<close> is always true in a condition; a string is true when it is not empty.
\<close>

definition filter_start :: "datetime option \<Rightarrow> Query \<Rightarrow> Query" where
  "filter_start start_date query =
     (case start_date of None \<Rightarrow> query | Some t \<Rightarrow> query\<lparr>scanned_from := Some t\<rparr>)"

definition filter_end :: "datetime option \<Rightarrow> Query \<Rightarrow> Query" where
  "filter_end end_date query =
     (case end_date of None \<Rightarrow> query | Some t \<Rightarrow> query\<lparr>scanned_before := Some t\<rparr>)"

definition filter_barcode :: "str option \<Rightarrow> Query \<Rightarrow> Query" where
  "filter_barcode barcode_query query =
     (case barcode_query of
        None \<Rightarrow> query
      | Some q \<Rightarrow> (if q \<noteq> [] then query\<lparr>barcode_contains := Some q\<rparr> else query))"

definition order_by_scanned_at_desc :: "Query \<Rightarrow> Query" where
  "order_by_scanned_at_desc query = query\<lparr>ordered := True\<rparr>"

definition offset :: "int \<Rightarrow> Query \<Rightarrow> Query" where
  "offset skip query = query\<lparr>offset_by := Some skip\<rparr>"

definition limit_rows :: "int \<Rightarrow> Query \<Rightarrow> Query" where
  "limit_rows limit query = query\<lparr>limit_to := Some limit\<rparr>"

text \<open>
  The parameters of the statement can be bound, and the text
  \<^verbatim>\<open>'%' || ? || '%'\<close> can be built.
\<close>

definition binds :: "Query \<Rightarrow> bool" where
  "binds query \<longleftrightarrow>
     (case barcode_contains query of
        None \<Rightarrow> True | Some q \<Rightarrow> encodable q \<and> utf8_len q + 2 \<le> 1000000000) \<and>
     (case offset_by query of None \<Rightarrow> True | Some n \<Rightarrow> sqlite_integer n) \<and>
     (case limit_to query of None \<Rightarrow> True | Some n \<Rightarrow> sqlite_integer n)"

text \<open>The conditions on \<open>scanned_at\<close>, which the engine tests first, and the whole condition.\<close>

definition where_dates :: "Query \<Rightarrow> ScanDB \<Rightarrow> bool" where
  "where_dates query r \<longleftrightarrow>
     (case scanned_from query of None \<Rightarrow> True | Some t \<Rightarrow> dt_key t \<le> dt_key (scanned_at r)) \<and>
     (case scanned_before query of None \<Rightarrow> True | Some t \<Rightarrow> dt_key (scanned_at r) < dt_key t)"

definition where_clause :: "Query \<Rightarrow> ScanDB \<Rightarrow> bool" where
  "where_clause query r \<longleftrightarrow>
     where_dates query r \<and>
     (case barcode_contains query of
        None \<Rightarrow> True | Some q \<Rightarrow> sqlite_like (37 # q @ [37]) (barcode r))"

definition result_rows :: "Query \<Rightarrow> ScanDB list \<Rightarrow> ScanDB list" where
  "result_rows query rs =
     (let rs = (if ordered query then sqlite_order_desc rs else rs);
          rs = (case offset_by query of None \<Rightarrow> rs | Some n \<Rightarrow> sqlite_offset n rs)
      in (case limit_to query of None \<Rightarrow> rs | Some n \<Rightarrow> sqlite_limit n rs))"

text \<open>\<^verbatim>\<open>.all()\<close>: the statement is run on the rows that the session sees.\<close>

definition query_all :: "Query \<Rightarrow> Session \<Rightarrow> exception + ScanDB list" where
  "query_all query db =
     (if \<not> binds query then Inl (lit ''parameter cannot be bound'')
      else if limit_to query = Some 0 then Inr []
      else if filter (where_dates query) (txn db) \<noteq> [] \<and>
              (case barcode_contains query of None \<Rightarrow> False | Some q \<Rightarrow> 50000 < utf8_len q + 2)
      then Inl (lit ''LIKE or GLOB pattern too complex'')
      else Inr (result_rows query (filter (where_clause query) (txn db))))"

text \<open>\<^verbatim>\<open>db.query(ScanDB).delete()\<close>: the number of rows deleted.\<close>

definition query_delete :: "fault \<Rightarrow> Session \<Rightarrow> (exception + nat) \<times> Session" where
  "query_delete f db =
     (case f of
        DeleteFails e partial r \<Rightarrow> (Inl e, db\<lparr>txn := partial\<rparr>)
      | _ \<Rightarrow> (Inr (length (txn db)), db\<lparr>txn := []\<rparr>))"

section \<open>The handlers\<close>

subsection \<open>\<^verbatim>\<open>create_scan\<close>\<close>

text \<open>
  Lines 71 to 80. \<open>now\<close> is what \<^verbatim>\<open>datetime.utcnow()\<close> returns when the handler calls it.
  \<^verbatim>\<open>scan.model_dump()\<close> holds the one field of the schema, the barcode. The handler
  catches no exception.
\<close>

definition create_scan ::
  "ScanCreate \<Rightarrow> datetime \<Rightarrow> int option \<Rightarrow> ScanDB list
     \<Rightarrow> (HTTPException + ScanDB) \<times> ScanDB list" where
  "create_scan scan now pick tbl =
     (let db = SessionLocal tbl;
          db_scan = (create_barcode scan, now);
          db = db_add db_scan db;
          (committed_keys, db) = db_commit NoFault pick db
      in case committed_keys of
           Inr [k] \<Rightarrow>
             (case db_refresh k db of
                Some row \<Rightarrow> (Inr row, db_close db)
              | None \<Rightarrow> (Inl internal_server_error, db_close db))
         | _ \<Rightarrow> (Inl internal_server_error, db_close db))"

text \<open>The POST request: the body is validated, then the handler runs.\<close>

definition post_scans ::
  "(str \<times> json) list \<Rightarrow> datetime \<Rightarrow> int option \<Rightarrow> ScanDB list
     \<Rightarrow> (HTTPException + ScanDB) \<times> ScanDB list" where
  "post_scans body now pick tbl =
     (case validate_ScanCreate body of
        Inl e \<Rightarrow> (Inl e, tbl)
      | Inr scan \<Rightarrow> create_scan scan now pick tbl)"

subsection \<open>\<^verbatim>\<open>read_scans\<close>\<close>

text \<open>Lines 82 to 103. The handler catches no exception.\<close>

definition read_scans ::
  "int \<Rightarrow> int \<Rightarrow> datetime option \<Rightarrow> datetime option \<Rightarrow> str option \<Rightarrow> ScanDB list
     \<Rightarrow> (HTTPException + ScanDB list) \<times> ScanDB list" where
  "read_scans skip limit start_date end_date barcode_query tbl =
     (let db = SessionLocal tbl;
          query = db_query;
          query = filter_start start_date query;
          query = filter_end end_date query;
          query = filter_barcode barcode_query query;
          scans = query_all (limit_rows limit (offset skip (order_by_scanned_at_desc query))) db
      in case scans of
           Inl e \<Rightarrow> (Inl internal_server_error, db_close db)
         | Inr scans \<Rightarrow> (Inr scans, db_close db))"

subsection \<open>\<^verbatim>\<open>export_scans\<close>\<close>

text \<open>
  Lines 105 to 145. A cell of the data frame and of the sheet, the data frame, and the
  sheet that \<^verbatim>\<open>df.to_excel(writer, index=False, sheet_name='Scans')\<close> writes: its first
  row holds the column names.
\<close>

datatype cell = CInt int | CStr str | CDatetime datetime | CFormula str | CError str

record DataFrame =
  columns :: "str list"
  records :: "cell list list"

record Sheet =
  sheet_name :: str
  header :: "str list"
  data_rows :: "cell list list"

record StreamingResponse =
  workbook :: "Sheet list"
  headers :: "(str \<times> str) list"
  media_type :: str

definition data_for_df :: "ScanDB list \<Rightarrow> (str \<times> cell) list list" where
  "data_for_df scans_data =
     map (\<lambda>s. [(lit ''id'', CInt (id_pk s)), (lit ''barcode'', CStr (barcode s)),
               (lit ''scanned_at'', CDatetime (scanned_at s))]) scans_data"

text \<open>\<^verbatim>\<open>pd.DataFrame\<close> of a list of dicts with the same keys in the same order.\<close>

definition pd_DataFrame :: "(str \<times> cell) list list \<Rightarrow> DataFrame" where
  "pd_DataFrame ds =
     \<lparr>columns = (case ds of [] \<Rightarrow> [] | d # _ \<Rightarrow> map fst d), records = map (map snd) ds\<rparr>"

text \<open>\<^verbatim>\<open>df[c] = df[c].dt.strftime('%Y-%m-%d %H:%M:%S')\<close>.\<close>

definition strftime_cell :: "cell \<Rightarrow> cell" where
  "strftime_cell c = (case c of CDatetime d \<Rightarrow> CStr (strftime_Ymd_HMS d) | _ \<Rightarrow> c)"

definition strftime_column :: "str \<Rightarrow> DataFrame \<Rightarrow> DataFrame" where
  "strftime_column c df =
     df\<lparr>records := map (\<lambda>row. map (\<lambda>(name, v). if name = c then strftime_cell v else v)
                                  (zip (columns df) row)) (records df)\<rparr>"

text \<open>
  A number in a sheet is a double: the integer nearest to the given one among those
  with 53 significant bits, the even one of two that are equally near.
\<close>

fun bit_length :: "nat \<Rightarrow> nat" where
  "bit_length n = (if n = 0 then 0 else Suc (bit_length (n div 2)))"

declare bit_length.simps [simp del]

definition nearest_double :: "nat \<Rightarrow> nat" where
  "nearest_double n =
     (let e = bit_length n - 53; q = n div 2 ^ e; r = n mod 2 ^ e
      in if 2 ^ e < 2 * r \<or> (2 * r = 2 ^ e \<and> odd q) then (q + 1) * 2 ^ e else q * 2 ^ e)"

definition double_of_int :: "int \<Rightarrow> int" where
  "double_of_int i = (if i < 0 then - int (nearest_double (nat (- i))) else int (nearest_double (nat i)))"

text \<open>
  The check that the writer makes on a text: it is cut to 32767 characters, and a
  control character other than tab, line feed and carriage return is refused.
\<close>

definition xlsx_illegal :: "nat \<Rightarrow> bool" where
  "xlsx_illegal c \<longleftrightarrow> c \<le> 8 \<or> c = 11 \<or> c = 12 \<or> (14 \<le> c \<and> c \<le> 31)"

definition check_string :: "str \<Rightarrow> exception + str" where
  "check_string v =
     (let v = take 32767 v
      in if list_ex xlsx_illegal v then Inl (lit ''IllegalCharacterError'') else Inr v)"

text \<open>
  A text that is set as the value of a cell becomes a formula when it is longer than one
  character and starts with \<^verbatim>\<open>=\<close> (61), an error value when it is one of the error
  codes, and a string otherwise.
\<close>

definition error_codes :: "str list" where
  "error_codes =
     [lit ''#NULL!'', lit ''#DIV/0!'', lit ''#VALUE!'', lit ''#REF!'', lit ''#NAME?'',
      lit ''#NUM!'', lit ''#N/A'']"

definition cell_of_text :: "str \<Rightarrow> cell" where
  "cell_of_text v =
     (if 1 < length v \<and> hd v = 61 then CFormula v
      else if v \<in> set error_codes then CError v else CStr v)"

definition write_cell :: "cell \<Rightarrow> exception + cell" where
  "write_cell c =
     (case c of
        CInt i \<Rightarrow> Inr (CInt (double_of_int i))
      | CStr s \<Rightarrow> (case check_string s of Inl e \<Rightarrow> Inl e | Inr v \<Rightarrow> Inr (cell_of_text v))
      | _ \<Rightarrow> Inr c)"

definition to_excel :: "str \<Rightarrow> DataFrame \<Rightarrow> exception + Sheet" where
  "to_excel name df =
     (if 1048576 < length (records df) then Inl (lit ''This sheet is too large!'')
      else case sequence (map check_string (columns df)) of
             Inl e \<Rightarrow> Inl e
           | Inr names \<Rightarrow>
               (case sequence (map (\<lambda>row. sequence (map write_cell row)) (records df)) of
                  Inl e \<Rightarrow> Inl e
                | Inr rows \<Rightarrow> Inr \<lparr>sheet_name = name, header = names, data_rows = rows\<rparr>))"

text \<open>The part of \<^verbatim>\<open>export_scans\<close> after the check for an empty result, lines 128 to 145.\<close>

definition export_response :: "ScanDB list \<Rightarrow> exception + StreamingResponse" where
  "export_response scans_data =
     (let df = pd_DataFrame (data_for_df scans_data);
          df = (if records df \<noteq> [] then strftime_column (lit ''scanned_at'') df else df)
      in case to_excel (lit ''Scans'') df of
           Inl e \<Rightarrow> Inl e
         | Inr sheet \<Rightarrow>
             Inr \<lparr>workbook = [sheet],
                  headers = [(lit ''Content-Disposition'',
                              lit ''attachment; filename='' @ [34] @ lit ''scans_export.xlsx'' @
                              [34])],
                  media_type =
                    lit ''application/vnd.openxmlformats-officedocument.spreadsheetml.sheet''\<rparr>)"

definition export_scans ::
  "datetime option \<Rightarrow> datetime option \<Rightarrow> str option \<Rightarrow> ScanDB list
     \<Rightarrow> (HTTPException + StreamingResponse) \<times> ScanDB list" where
  "export_scans start_date end_date barcode_query tbl =
     (let db = SessionLocal tbl;
          query = db_query;
          query = filter_start start_date query;
          query = filter_end end_date query;
          query = filter_barcode barcode_query query;
          scans_data = query_all (order_by_scanned_at_desc query) db
      in case scans_data of
           Inl e \<Rightarrow> (Inl internal_server_error, db_close db)
         | Inr scans_data \<Rightarrow>
             if scans_data = []
             then (Inl (HTTPException 404 (lit ''No scans found for the given criteria.'')),
                   db_close db)
             else (case export_response scans_data of
                     Inl e \<Rightarrow> (Inl internal_server_error, db_close db)
                   | Inr response \<Rightarrow> (Inr response, db_close db)))"

subsection \<open>\<^verbatim>\<open>delete_all_scans\<close>\<close>

text \<open>
  Lines 147 to 158. The handler proper works on the session: the DELETE and the commit
  are inside the \<^verbatim>\<open>try\<close> block, and the \<^verbatim>\<open>except\<close> branch calls the rollback and then
  raises the response 500 with the text of the exception. An exception of the rollback
  itself leaves the branch before that.
\<close>

record JSONResponse =
  message :: str
  status :: nat

definition delete_failed ::
  "fault \<Rightarrow> exception \<Rightarrow> Session \<Rightarrow> (HTTPException + JSONResponse) \<times> Session" where
  "delete_failed f e db =
     (let (rolled_back, db) = db_rollback f db
      in case rolled_back of
           Inl e' \<Rightarrow> (Inl internal_server_error, db)
         | Inr _ \<Rightarrow> (Inl (HTTPException 500 (lit ''Failed to delete records: '' @ e)), db))"

definition delete_all_scans_handler ::
  "fault \<Rightarrow> Session \<Rightarrow> (HTTPException + JSONResponse) \<times> Session" where
  "delete_all_scans_handler f db =
     (let (num_deleted, db) = query_delete f db
      in case num_deleted of
           Inl e \<Rightarrow> delete_failed f e db
         | Inr num_deleted \<Rightarrow>
             (let (done, db) = db_commit f None db
              in case done of
                   Inl e \<Rightarrow> delete_failed f e db
                 | Inr _ \<Rightarrow>
                     (Inr \<lparr>message = lit ''Successfully deleted '' @ str_nat num_deleted @
                                      lit '' scan records.'',
                           status = 200\<rparr>, db)))"

text \<open>The request: \<^verbatim>\<open>get_db\<close> opens the session, and closes it when the handler is left.\<close>

definition delete_all_scans ::
  "fault \<Rightarrow> ScanDB list \<Rightarrow> (HTTPException + JSONResponse) \<times> ScanDB list" where
  "delete_all_scans f tbl =
     (let (response, db) = delete_all_scans_handler f (SessionLocal tbl)
      in (response, db_close db))"

section \<open>Notions of the specification\<close>

text \<open>A sequence of rows is in descending order of \<open>scanned_at\<close>.\<close>

definition descending :: "ScanDB list \<Rightarrow> bool" where
  "descending rs = sorted_wrt (\<lambda>a b. dt_key (scanned_at b) \<le> dt_key (scanned_at a)) rs"

text \<open>
  The page of a sequence: the rows after the first \<open>skip\<close>, at most \<open>limit\<close> of them. A
  page covers a sequence of \<open>n\<close> rows when nothing is skipped or cut.
\<close>

definition page_of :: "int \<Rightarrow> int \<Rightarrow> 'a list \<Rightarrow> 'a list" where
  "page_of skip limit rs =
     (if limit < 0 then drop (nat skip) rs else take (nat limit) (drop (nat skip) rs))"

definition page_covers :: "int \<Rightarrow> int \<Rightarrow> nat \<Rightarrow> bool" where
  "page_covers skip limit n \<longleftrightarrow> skip \<le> 0 \<and> (limit < 0 \<or> int n \<le> limit)"

text \<open>
  The records that a combination of filters selects, the filtered result: \<open>scanned_at\<close>
  is not before \<open>start_date\<close> and is before \<open>end_date\<close>, where these are given, and the
  barcode is \<^verbatim>\<open>LIKE\<close> the barcode filter between two \<^verbatim>\<open>%\<close>, where that is given and not
  empty.
\<close>

definition selected :: "datetime option \<Rightarrow> datetime option \<Rightarrow> str option \<Rightarrow> ScanDB \<Rightarrow> bool" where
  "selected start_date end_date barcode_query r \<longleftrightarrow>
     (case start_date of None \<Rightarrow> True | Some t \<Rightarrow> dt_key t \<le> dt_key (scanned_at r)) \<and>
     (case end_date of None \<Rightarrow> True | Some t \<Rightarrow> dt_key (scanned_at r) < dt_key t) \<and>
     (case barcode_query of
        None \<Rightarrow> True
      | Some q \<Rightarrow> q = [] \<or> sqlite_like (37 # q @ [37]) (barcode r))"

text \<open>
  The specification's filter on the barcode: \<open>q\<close> occurs in \<open>b\<close> as a contiguous run of
  characters, each compared exactly.
\<close>

fun starts_with :: "str \<Rightarrow> str \<Rightarrow> bool" where
  "starts_with [] b = True"
| "starts_with (c # q) [] = False"
| "starts_with (c # q) (d # b) = (c = d \<and> starts_with q b)"

fun contains_substring :: "str \<Rightarrow> str \<Rightarrow> bool" where
  "contains_substring q [] = (q = [])"
| "contains_substring q (d # b) = (starts_with q (d # b) \<or> contains_substring q b)"

text \<open>
  The same when characters are compared as \<^verbatim>\<open>LIKE\<close> compares them, ASCII letters without
  regard to case and U+FFFE and U+FFFF as U+FFFD, in the barcode up to its first NUL.
\<close>

definition like_fold :: "nat \<Rightarrow> nat" where
  "like_fold c = ascii_lower (sqlite_char c)"

definition contains_folded :: "str \<Rightarrow> str \<Rightarrow> bool" where
  "contains_folded q b =
     contains_substring (map like_fold q) (map like_fold (takeWhile (\<lambda>c. c \<noteq> 0) b))"

text \<open>
  A filter string without wildcard and NUL that the engine accepts as a pattern, and a
  barcode filter that the engine accepts: none, the empty one, or one that can be sent
  and is within the length of a pattern.
\<close>

definition plain_pattern :: "str \<Rightarrow> bool" where
  "plain_pattern q \<longleftrightarrow>
     q \<noteq> [] \<and> 37 \<notin> set q \<and> 95 \<notin> set q \<and> 0 \<notin> set q \<and> encodable q \<and>
     utf8_len q + 2 \<le> 50000"

definition pattern_accepted :: "str option \<Rightarrow> bool" where
  "pattern_accepted barcode_query \<longleftrightarrow>
     (case barcode_query of
        None \<Rightarrow> True
      | Some q \<Rightarrow> q = [] \<or> (encodable q \<and> utf8_len q + 2 \<le> 50000))"

text \<open>One more than the largest stored id, and 1 for the empty table.\<close>

definition key_after :: "ScanDB list \<Rightarrow> int" where
  "key_after tbl = (case tbl of [] \<Rightarrow> 1 | r # rs \<Rightarrow> fold max (map id_pk rs) (id_pk r) + 1)"








text \<open>The number that a delete response reports, read back from its message.\<close>

definition is_digit :: "nat \<Rightarrow> bool" where
  "is_digit c \<longleftrightarrow> 48 \<le> c \<and> c \<le> 57"

definition digits_value :: "str \<Rightarrow> nat" where
  "digits_value s = fold (\<lambda>c a. 10 * a + (c - 48)) s 0"

definition reported_count :: "str \<Rightarrow> nat" where
  "reported_count m = digits_value (takeWhile is_digit (drop 21 m))"

section \<open>Example data\<close>

text \<open>
  A clock that advances by a microsecond, and the table of \<open>n\<close> rows that were scanned
  at its ticks 1 to \<open>n\<close>.
\<close>

definition clock :: "nat \<Rightarrow> datetime" where
  "clock n = mk_datetime 2024 1 1 0 0 0 n"

definition scan_row :: "nat \<Rightarrow> ScanDB" where
  "scan_row n = \<lparr>id_pk = int n, barcode = lit ''A'', scanned_at = clock n\<rparr>"

primrec rows_upto :: "nat \<Rightarrow> ScanDB list" where
  "rows_upto 0 = []"
| "rows_upto (Suc n) = rows_upto n @ [scan_row (Suc n)]"

section \<open>Properties\<close>

subsection \<open>Ordering and pages\<close>

lemma mset_insert_desc: "mset (insert_desc x ys) = add_mset x (mset ys)"
  by (induction ys) auto

lemma mset_order_desc: "mset (sqlite_order_desc rs) = mset rs"
  unfolding sqlite_order_desc_def by (induction rs) (auto simp: mset_insert_desc)

lemma set_order_desc: "set (sqlite_order_desc rs) = set rs"
  using mset_order_desc [of rs] by (metis set_mset_mset)

lemma length_order_desc: "length (sqlite_order_desc rs) = length rs"
  using mset_order_desc [of rs] by (metis size_mset)


lemma set_insert_desc: "set (insert_desc x ys) = insert x (set ys)"
  using mset_insert_desc [of x ys] by (metis set_mset_add_mset_insert set_mset_mset)

lemma descending_insert_desc: "descending ys \<Longrightarrow> descending (insert_desc x ys)"
  unfolding descending_def
proof (induction ys)
  case Nil
  then show ?case by simp
next
  case (Cons y ys)
  show ?case
  proof (cases "dt_key (scanned_at y) \<le> dt_key (scanned_at x)")
    case True
    with Cons.prems show ?thesis by (auto intro: order_trans)
  next
    case False
    then have "dt_key (scanned_at x) \<le> dt_key (scanned_at y)" by simp
    with False Cons show ?thesis by (auto simp: set_insert_desc)
  qed
qed

lemma descending_order_desc: "descending (sqlite_order_desc rs)"
  unfolding sqlite_order_desc_def
proof (induction rs)
  case Nil
  show ?case by (simp add: descending_def)
next
  case (Cons r rs)
  then show ?case by (simp add: descending_insert_desc)
qed

lemma page_of_engine: "sqlite_limit limit (sqlite_offset skip rs) = page_of skip limit rs"
  by (simp add: sqlite_limit_def sqlite_offset_def page_of_def)

lemma page_of_zero: "page_of skip 0 rs = []"
  by (simp add: page_of_def)

lemma set_page_subset: "set (page_of skip limit rs) \<subseteq> set rs"
  unfolding page_of_def
  by (auto dest: in_set_takeD in_set_dropD)

lemma page_covers_all: "page_covers skip limit (length rs) \<Longrightarrow> page_of skip limit rs = rs"
  unfolding page_of_def page_covers_def by auto

lemma descending_page: "descending rs \<Longrightarrow> descending (page_of skip limit rs)"
  unfolding page_of_def descending_def
  by (simp add: sorted_wrt_take sorted_wrt_drop)

lemma length_page: "0 \<le> limit \<Longrightarrow> int (length (page_of skip limit rs)) \<le> limit"
  unfolding page_of_def by simp

lemma page_beyond: "int (length rs) < skip \<Longrightarrow> page_of skip limit rs = []"
  unfolding page_of_def by simp

subsection \<open>The query that the listing and the export build\<close>

lemma selected_eq:
  "selected sd ed bq r \<longleftrightarrow>
     (case sd of None \<Rightarrow> True | Some t \<Rightarrow> dt_key t \<le> dt_key (scanned_at r)) \<and>
     (case ed of None \<Rightarrow> True | Some t \<Rightarrow> dt_key (scanned_at r) < dt_key t) \<and>
     (case bq of None \<Rightarrow> True
      | Some q \<Rightarrow> q = [] \<or> sqlite_like (37 # q @ [37]) (barcode r))"
  by (simp add: selected_def)

lemma where_clause_built:
  "where_clause (filter_barcode bq (filter_end ed (filter_start sd db_query))) = selected sd ed bq"
  by (intro ext)
    (simp add: selected_def where_clause_def where_dates_def filter_barcode_def
      filter_end_def filter_start_def db_query_def split: option.splits)

lemma where_clause_listing:
  "where_clause (limit_rows limit (offset skip (order_by_scanned_at_desc
     (filter_barcode bq (filter_end ed (filter_start sd db_query)))))) = selected sd ed bq"
proof -
  have "where_clause (limit_rows limit (offset skip (order_by_scanned_at_desc query))) =
      where_clause query" for query
    by (intro ext)
      (simp add: where_clause_def where_dates_def limit_rows_def offset_def
        order_by_scanned_at_desc_def)
  then show ?thesis by (simp only: where_clause_built)
qed

lemma where_clause_export:
  "where_clause (order_by_scanned_at_desc
     (filter_barcode bq (filter_end ed (filter_start sd db_query)))) = selected sd ed bq"
proof -
  have "where_clause (order_by_scanned_at_desc query) = where_clause query" for query
    by (intro ext) (simp add: where_clause_def where_dates_def order_by_scanned_at_desc_def)
  then show ?thesis by (simp only: where_clause_built)
qed

lemma barcode_contains_built:
  "barcode_contains (filter_barcode bq (filter_end ed (filter_start sd db_query))) =
     (case bq of None \<Rightarrow> None | Some q \<Rightarrow> if q \<noteq> [] then Some q else None)"
  by (simp add: filter_barcode_def filter_end_def filter_start_def db_query_def
      split: option.splits)

lemma binds_listing:
  "binds (limit_rows limit (offset skip (order_by_scanned_at_desc
     (filter_barcode bq (filter_end ed (filter_start sd db_query)))))) \<longleftrightarrow>
   (case bq of None \<Rightarrow> True
    | Some q \<Rightarrow> q = [] \<or> (encodable q \<and> utf8_len q + 2 \<le> 1000000000)) \<and>
   sqlite_integer skip \<and> sqlite_integer limit"
  by (simp add: binds_def limit_rows_def offset_def order_by_scanned_at_desc_def
      filter_barcode_def filter_end_def filter_start_def db_query_def split: option.splits)

lemma binds_export:
  "binds (order_by_scanned_at_desc
     (filter_barcode bq (filter_end ed (filter_start sd db_query)))) \<longleftrightarrow>
   (case bq of None \<Rightarrow> True
    | Some q \<Rightarrow> q = [] \<or> (encodable q \<and> utf8_len q + 2 \<le> 1000000000))"
  by (simp add: binds_def order_by_scanned_at_desc_def
      filter_barcode_def filter_end_def filter_start_def db_query_def split: option.splits)

lemma pattern_accepted_binds:
  "pattern_accepted bq \<Longrightarrow>
   (case bq of None \<Rightarrow> True
    | Some q \<Rightarrow> q = [] \<or> (encodable q \<and> utf8_len q + 2 \<le> 1000000000))"
  by (auto simp: pattern_accepted_def split: option.splits)

lemma pattern_accepted_short:
  "pattern_accepted bq \<Longrightarrow>
   \<not> (case barcode_contains (filter_barcode bq (filter_end ed (filter_start sd db_query))) of
        None \<Rightarrow> False | Some q \<Rightarrow> 50000 < utf8_len q + 2)"
  by (auto simp: pattern_accepted_def barcode_contains_built split: option.splits)

lemma result_rows_listing:
  "result_rows (limit_rows limit (offset skip (order_by_scanned_at_desc query))) rs =
     page_of skip limit (sqlite_order_desc rs)"
  by (simp add: result_rows_def limit_rows_def offset_def order_by_scanned_at_desc_def
      page_of_engine)

lemma result_rows_export:
  "result_rows (order_by_scanned_at_desc
     (filter_barcode bq (filter_end ed (filter_start sd db_query)))) rs = sqlite_order_desc rs"
  by (simp add: result_rows_def order_by_scanned_at_desc_def
      filter_barcode_def filter_end_def filter_start_def db_query_def split: option.splits)

lemma limit_to_listing:
  "limit_to (limit_rows limit query) = Some limit"
  by (simp add: limit_rows_def)

lemma limit_to_export:
  "limit_to (order_by_scanned_at_desc
     (filter_barcode bq (filter_end ed (filter_start sd db_query)))) = None"
  by (simp add: order_by_scanned_at_desc_def
      filter_barcode_def filter_end_def filter_start_def db_query_def split: option.splits)

lemma barcode_contains_listing:
  "barcode_contains (limit_rows limit (offset skip (order_by_scanned_at_desc query))) =
     barcode_contains query"
  by (simp add: limit_rows_def offset_def order_by_scanned_at_desc_def)

lemma barcode_contains_export:
  "barcode_contains (order_by_scanned_at_desc query) = barcode_contains query"
  by (simp add: order_by_scanned_at_desc_def)

lemma where_dates_listing:
  "where_dates (limit_rows limit (offset skip (order_by_scanned_at_desc query))) =
     where_dates query"
  by (intro ext) (simp add: where_dates_def limit_rows_def offset_def order_by_scanned_at_desc_def)

lemma where_dates_export: "where_dates (order_by_scanned_at_desc query) = where_dates query"
  by (intro ext) (simp add: where_dates_def order_by_scanned_at_desc_def)

text \<open>What a listing returns when its query is accepted, and what it returns at all.\<close>

lemma query_all_listing_accepted:
  assumes "sqlite_integer skip" "sqlite_integer limit" "pattern_accepted bq"
  shows "query_all (limit_rows limit (offset skip (order_by_scanned_at_desc
           (filter_barcode bq (filter_end ed (filter_start sd db_query))))))
           (SessionLocal tbl) =
         Inr (page_of skip limit (sqlite_order_desc (filter (selected sd ed bq) tbl)))"
proof -
  let ?q = "filter_barcode bq (filter_end ed (filter_start sd db_query))"
  let ?Q = "limit_rows limit (offset skip (order_by_scanned_at_desc ?q))"
  from assms have b: "binds ?Q"
    by (simp only: binds_listing pattern_accepted_binds simp_thms)
  from assms(3) have short: "\<not> (case barcode_contains ?Q of
        None \<Rightarrow> False | Some q \<Rightarrow> 50000 < utf8_len q + 2)"
    by (simp only: barcode_contains_listing pattern_accepted_short simp_thms)
  show ?thesis
  proof (cases "limit = 0")
    case True
    with b show ?thesis
      by (simp add: query_all_def limit_to_listing page_of_zero)
  next
    case False
    with b short show ?thesis
      by (simp add: query_all_def limit_to_listing where_clause_listing result_rows_listing
          SessionLocal_def)
  qed
qed

lemma query_all_listing_cases:
  "(\<exists>e. query_all (limit_rows limit (offset skip (order_by_scanned_at_desc
           (filter_barcode bq (filter_end ed (filter_start sd db_query))))))
           (SessionLocal tbl) = Inl e) \<or>
   query_all (limit_rows limit (offset skip (order_by_scanned_at_desc
           (filter_barcode bq (filter_end ed (filter_start sd db_query))))))
           (SessionLocal tbl) =
     Inr (page_of skip limit (sqlite_order_desc (filter (selected sd ed bq) tbl)))"
  by (simp add: query_all_def limit_to_listing where_clause_listing result_rows_listing
      SessionLocal_def page_of_zero)

lemma read_scans_accepted:
  assumes "sqlite_integer skip" "sqlite_integer limit" "pattern_accepted bq"
  shows "read_scans skip limit sd ed bq tbl =
           (Inr (page_of skip limit (sqlite_order_desc (filter (selected sd ed bq) tbl))), tbl)"
  using query_all_listing_accepted [OF assms, of ed sd tbl]
  by (simp add: read_scans_def Let_def db_close_def) (simp add: SessionLocal_def)

lemma read_scans_cases:
  "read_scans skip limit sd ed bq tbl = (Inl internal_server_error, tbl) \<or>
   read_scans skip limit sd ed bq tbl =
     (Inr (page_of skip limit (sqlite_order_desc (filter (selected sd ed bq) tbl))), tbl)"
  using query_all_listing_cases [of limit skip bq ed sd tbl]
  by (auto simp: read_scans_def Let_def db_close_def SessionLocal_def)

lemma snd_read_scans: "snd (read_scans skip limit sd ed bq tbl) = tbl"
  using read_scans_cases [of skip limit sd ed bq tbl] by auto

lemma read_scans_overflow:
  "\<not> sqlite_integer skip \<or> \<not> sqlite_integer limit \<Longrightarrow>
   read_scans skip limit sd ed bq tbl = (Inl internal_server_error, tbl)"
  by (auto simp: read_scans_def Let_def db_close_def SessionLocal_def query_all_def
      binds_listing)

text \<open>The export runs the query of the listing without offset and limit.\<close>

lemma query_all_unpaged:
  "query_all (limit_rows (- 1) (offset 0 (order_by_scanned_at_desc
           (filter_barcode bq (filter_end ed (filter_start sd db_query)))))) db =
   query_all (order_by_scanned_at_desc
           (filter_barcode bq (filter_end ed (filter_start sd db_query)))) db"
proof -
  have "sqlite_integer 0" "sqlite_integer (- 1)" by (simp_all add: sqlite_integer_def)
  then show ?thesis
    by (simp add: query_all_def binds_listing binds_export limit_to_listing limit_to_export
        barcode_contains_listing barcode_contains_export where_dates_listing
        where_dates_export where_clause_listing where_clause_export result_rows_listing
        result_rows_export page_of_def)
qed

lemma export_scans_eq:
  "export_scans sd ed bq tbl =
     (case fst (read_scans 0 (- 1) sd ed bq tbl) of
        Inl e \<Rightarrow> (Inl internal_server_error, tbl)
      | Inr scans_data \<Rightarrow>
          if scans_data = []
          then (Inl (HTTPException 404 (lit ''No scans found for the given criteria.'')), tbl)
          else (case export_response scans_data of
                  Inl e \<Rightarrow> (Inl internal_server_error, tbl)
                | Inr response \<Rightarrow> (Inr response, tbl)))"
  by (simp add: export_scans_def read_scans_def Let_def query_all_unpaged db_close_def
      split: sum.splits)
    (simp add: SessionLocal_def)

lemma snd_export_scans: "snd (export_scans sd ed bq tbl) = tbl"
  by (simp add: export_scans_eq split: sum.splits)

subsection \<open>Substrings and LIKE\<close>

lemma like_percent_any: "like_match [37] s"
  by (induction s) auto

lemma like_percent_drop:
  "like_match (37 # ps) s \<longleftrightarrow> (\<exists>k\<le>length s. like_match ps (drop k s))"
proof (induction s)
  case Nil
  then show ?case by simp
next
  case (Cons c s)
  show ?case
  proof
    assume "like_match (37 # ps) (c # s)"
    then consider "like_match ps (c # s)" | "like_match (37 # ps) s" by auto
    then show "\<exists>k\<le>length (c # s). like_match ps (drop k (c # s))"
    proof cases
      case 1
      then show ?thesis by (intro exI[of _ 0]) simp
    next
      case 2
      with Cons.IH obtain k where "k \<le> length s" "like_match ps (drop k s)" by blast
      then show ?thesis by (intro exI[of _ "Suc k"]) simp
    qed
  next
    assume "\<exists>k\<le>length (c # s). like_match ps (drop k (c # s))"
    then obtain k where k: "k \<le> length (c # s)" "like_match ps (drop k (c # s))" by blast
    show "like_match (37 # ps) (c # s)"
    proof (cases k)
      case 0
      with k show ?thesis by simp
    next
      case (Suc j)
      with k have "j \<le> length s" "like_match ps (drop j s)" by simp_all
      with Cons.IH have "like_match (37 # ps) s" by blast
      then show ?thesis by simp
    qed
  qed
qed

lemma like_literal_prefix:
  "37 \<notin> set q \<Longrightarrow> 95 \<notin> set q \<Longrightarrow>
   like_match (q @ [37]) s \<longleftrightarrow>
     (length q \<le> length s \<and> map ascii_lower (take (length q) s) = map ascii_lower q)"
proof (induction q arbitrary: s)
  case Nil
  then show ?case by (simp add: like_percent_any)
next
  case (Cons p q)
  then show ?case by (cases s) auto
qed

lemma starts_with_take:
  "starts_with q s \<longleftrightarrow> length q \<le> length s \<and> take (length q) s = q"
  by (induction q s rule: starts_with.induct) auto

lemma contains_substring_drop:
  "contains_substring q b \<longleftrightarrow> (\<exists>k\<le>length b. starts_with q (drop k b))"
proof (induction b)
  case Nil
  then show ?case by (cases q) auto
next
  case (Cons d b)
  show ?case
  proof
    assume "contains_substring q (d # b)"
    then consider "starts_with q (d # b)" | "contains_substring q b" by auto
    then show "\<exists>k\<le>length (d # b). starts_with q (drop k (d # b))"
    proof cases
      case 1
      then show ?thesis by (intro exI[of _ 0]) simp
    next
      case 2
      with Cons.IH obtain k where "k \<le> length b" "starts_with q (drop k b)" by blast
      then show ?thesis by (intro exI[of _ "Suc k"]) simp
    qed
  next
    assume "\<exists>k\<le>length (d # b). starts_with q (drop k (d # b))"
    then obtain k where k: "k \<le> length (d # b)" "starts_with q (drop k (d # b))" by blast
    show "contains_substring q (d # b)"
    proof (cases k)
      case 0
      with k show ?thesis by simp
    next
      case (Suc j)
      with k have "j \<le> length b" "starts_with q (drop j b)" by simp_all
      with Cons.IH have "contains_substring q b" by blast
      then show ?thesis by simp
    qed
  qed
qed

lemma contains_substring_iff:
  "contains_substring q b \<longleftrightarrow> (\<exists>pre suf. b = pre @ q @ suf)"
proof
  assume "contains_substring q b"
  then obtain k where "k \<le> length b" "starts_with q (drop k b)"
    unfolding contains_substring_drop by blast
  then have "take (length q) (drop k b) = q" by (simp add: starts_with_take)
  then have "b = take k b @ q @ drop (length q) (drop k b)"
    by (metis append_take_drop_id)
  then show "\<exists>pre suf. b = pre @ q @ suf" by blast
next
  assume "\<exists>pre suf. b = pre @ q @ suf"
  then obtain pre suf where b: "b = pre @ q @ suf" by blast
  have "starts_with q (q @ suf)" by (simp add: starts_with_take)
  with b have "length pre \<le> length b \<and> starts_with q (drop (length pre) b)" by simp
  then show "contains_substring q b" unfolding contains_substring_drop by blast
qed

lemma like_literal:
  assumes "37 \<notin> set q" "95 \<notin> set q"
  shows "like_match (37 # q @ [37]) s \<longleftrightarrow>
           contains_substring (map ascii_lower q) (map ascii_lower s)"
proof -
  have "like_match (q @ [37]) (drop k s) \<longleftrightarrow>
      starts_with (map ascii_lower q) (drop k (map ascii_lower s))" for k
    using assms by (simp add: like_literal_prefix starts_with_take take_map drop_map)
  then show ?thesis
    by (simp add: like_percent_drop contains_substring_drop)
qed

lemma sqlite_text_pattern:
  "0 \<notin> set q \<Longrightarrow> sqlite_text (37 # q @ [37]) = 37 # map sqlite_char q @ [37]"
proof -
  assume "0 \<notin> set q"
  then have "x \<noteq> 0" if "x \<in> set q" for x using that by metis
  then have "\<forall>x\<in>set (q @ [37]). x \<noteq> 0" by simp
  then have "takeWhile (\<lambda>c. c \<noteq> 0) (q @ [37]) = q @ [37]"
    by (simp only: takeWhile_eq_all_conv)
  then show ?thesis by (simp add: sqlite_text_def sqlite_char_def)
qed

lemma sqlite_like_plain:
  assumes "plain_pattern q"
  shows "sqlite_like (37 # q @ [37]) b \<longleftrightarrow> contains_folded q b"
proof -
  from assms have q: "37 \<notin> set q" "95 \<notin> set q" "0 \<notin> set q"
    by (simp_all add: plain_pattern_def)
  have "c = 37" if "sqlite_char c = 37" for c
    using that by (simp add: sqlite_char_def split: if_splits)
  moreover have "c = 95" if "sqlite_char c = 95" for c
    using that by (simp add: sqlite_char_def split: if_splits)
  ultimately have "37 \<notin> sqlite_char ` set q" "95 \<notin> sqlite_char ` set q"
    using q(1,2) by (metis imageE)+
  then have "37 \<notin> set (map sqlite_char q)" "95 \<notin> set (map sqlite_char q)"
    by simp_all
  then have main: "like_match (37 # map sqlite_char q @ [37]) (sqlite_text b) \<longleftrightarrow>
      contains_substring (map ascii_lower (map sqlite_char q))
        (map ascii_lower (sqlite_text b))"
    by (rule like_literal)
  from q(3) have pat: "sqlite_text (37 # q @ [37]) = 37 # map sqlite_char q @ [37]"
    by (rule sqlite_text_pattern)
  have fold: "map ascii_lower (map sqlite_char xs) = map like_fold xs" for xs
    by (simp add: like_fold_def)
  have "sqlite_like (37 # q @ [37]) b \<longleftrightarrow>
      like_match (37 # map sqlite_char q @ [37]) (sqlite_text b)"
    by (simp only: sqlite_like_def pat)
  also have "\<dots> \<longleftrightarrow> contains_substring (map ascii_lower (map sqlite_char q))
        (map ascii_lower (sqlite_text b))"
    by (rule main)
  also have "\<dots> \<longleftrightarrow> contains_folded q b"
    by (simp only: contains_folded_def sqlite_text_def fold)
  finally show ?thesis .
qed

lemma plain_pattern_accepted: "plain_pattern q \<Longrightarrow> pattern_accepted (Some q)"
  by (simp add: plain_pattern_def pattern_accepted_def)

lemma selected_barcode:
  "plain_pattern q \<Longrightarrow> selected None None (Some q) = (\<lambda>r. contains_folded q (barcode r))"
  by (intro ext) (simp add: selected_eq sqlite_like_plain plain_pattern_def)

lemma selected_dates:
  "selected (Some T1) (Some T2) None =
     (\<lambda>r. dt_key T1 \<le> dt_key (scanned_at r) \<and> dt_key (scanned_at r) < dt_key T2)"
  by (intro ext) (simp add: selected_eq)

lemma selected_none: "selected None None None = (\<lambda>r. True)"
  by (intro ext) (simp add: selected_eq)

subsection \<open>Decimal digits\<close>

lemma str_nat_small: "n < 10 \<Longrightarrow> str_nat n = [48 + n]"
  by (simp add: str_nat.simps)

lemma str_nat_large: "10 \<le> n \<Longrightarrow> str_nat n = str_nat (n div 10) @ [48 + n mod 10]"
  by (subst str_nat.simps) simp

lemma str_nat_digits: "c \<in> set (str_nat n) \<Longrightarrow> is_digit c"
proof (induction n rule: str_nat.induct)
  case (1 n)
  show ?case
  proof (cases "n < 10")
    case True
    with "1.prems" show ?thesis by (simp add: str_nat_small is_digit_def)
  next
    case False
    then have "str_nat n = str_nat (n div 10) @ [48 + n mod 10]" by (simp add: str_nat_large)
    with "1.prems" consider "c \<in> set (str_nat (n div 10))" | "c = 48 + n mod 10" by auto
    then show ?thesis
    proof cases
      case 1
      with False "1.IH" show ?thesis by simp
    next
      case 2
      have "n mod 10 < 10" by simp
      with 2 show ?thesis unfolding is_digit_def by linarith
    qed
  qed
qed

lemma digits_value_append:
  "digits_value (s @ [c]) = 10 * digits_value s + (c - 48)"
  by (simp add: digits_value_def)

lemma digits_value_str_nat: "digits_value (str_nat n) = n"
proof (induction n rule: str_nat.induct)
  case (1 n)
  show ?case
  proof (cases "n < 10")
    case True
    then show ?thesis by (simp add: str_nat_small digits_value_def)
  next
    case False
    with "1.IH" have "digits_value (str_nat (n div 10)) = n div 10" by simp
    with False show ?thesis by (simp add: str_nat_large digits_value_append)
  qed
qed

lemma takeWhile_digits:
  "(\<And>c. c \<in> set s \<Longrightarrow> is_digit c) \<Longrightarrow> \<not> is_digit d \<Longrightarrow>
   takeWhile is_digit (s @ d # rest) = s"
  by (induction s) auto

lemma reported_count_message:
  "reported_count (lit ''Successfully deleted '' @ str_nat n @ lit '' scan records.'') = n"
proof -
  have "drop 21 (lit ''Successfully deleted '' @ str_nat n @ lit '' scan records.'') =
      str_nat n @ 32 # lit ''scan records.''"
    by (simp add: lit_def)
  moreover have "takeWhile is_digit (str_nat n @ 32 # lit ''scan records.'') = str_nat n"
  proof (rule takeWhile_digits)
    show "is_digit c" if "c \<in> set (str_nat n)" for c
      using that by (rule str_nat_digits)
    show "\<not> is_digit 32" by (simp add: is_digit_def)
  qed
  ultimately show ?thesis by (simp add: reported_count_def digits_value_str_nat)
qed

subsection \<open>Row keys\<close>

lemma fold_max_lower: "(a::int) \<le> fold max xs a"
proof (induction xs arbitrary: a)
  case Nil
  show ?case by simp
next
  case (Cons x xs)
  have "a \<le> max x a" by simp
  also have "\<dots> \<le> fold max xs (max x a)" by (rule Cons.IH)
  finally show ?case by simp
qed

lemma fold_max_upper: "(x::int) \<in> set xs \<Longrightarrow> x \<le> fold max xs a"
proof (induction xs arbitrary: a)
  case Nil
  then show ?case by simp
next
  case (Cons y xs)
  show ?case
  proof (cases "x = y")
    case True
    have "x \<le> max y a" using True by simp
    also have "\<dots> \<le> fold max xs (max y a)" by (rule fold_max_lower)
    finally show ?thesis by simp
  next
    case False
    with Cons.prems have "x \<in> set xs" by simp
    then show ?thesis by (simp add: Cons.IH)
  qed
qed

lemma find_appended: "(\<And>r. r \<in> set rs \<Longrightarrow> \<not> P r) \<Longrightarrow> P x \<Longrightarrow> find P (rs @ [x]) = Some x"
  by (induction rs) auto

subsection \<open>The text of a timestamp\<close>











subsection \<open>Numbers in a sheet\<close>





subsection \<open>The writer of the workbook\<close>









subsection \<open>Keys of inserted rows\<close>

lemma fold_max_member: "fold max xs (a::int) \<in> set (a # xs)"
proof (induction xs arbitrary: a)
  case Nil
  show ?case by simp
next
  case (Cons x xs)
  have "fold max xs (max x a) \<in> set (max x a # xs)" by (rule Cons.IH)
  moreover have "max x a = x \<or> max x a = a" by (simp add: max_def)
  ultimately show ?case by auto
qed

lemma key_after_greater: "r \<in> set tbl \<Longrightarrow> id_pk r < key_after tbl"
proof (cases tbl)
  case Nil
  assume "r \<in> set tbl"
  with Nil show ?thesis by simp
next
  case (Cons r0 rs)
  assume "r \<in> set tbl"
  with Cons consider "r = r0" | "id_pk r \<in> set (map id_pk rs)" by auto
  then have "id_pk r \<le> fold max (map id_pk rs) (id_pk r0)"
  proof cases
    case 1
    then show ?thesis by (simp add: fold_max_lower)
  next
    case 2
    then show ?thesis by (rule fold_max_upper)
  qed
  with Cons show ?thesis by (simp add: key_after_def)
qed

lemma next_rowid_below_largest:
  assumes "\<And>r. r \<in> set tbl \<Longrightarrow> id_pk r < 9223372036854775807"
  shows "next_rowid pick tbl = Some (key_after tbl)"
proof (cases tbl)
  case Nil
  then show ?thesis by (simp add: next_rowid_def key_after_def)
next
  case (Cons r rs)
  have "fold max (map id_pk rs) (id_pk r) \<in> set (id_pk r # map id_pk rs)"
    by (rule fold_max_member)
  with Cons have "fold max (map id_pk rs) (id_pk r) \<in> id_pk ` set tbl" by auto
  with assms have "fold max (map id_pk rs) (id_pk r) < 9223372036854775807" by auto
  with Cons show ?thesis by (simp add: next_rowid_def key_after_def Let_def)
qed

lemma create_scan_stored:
  assumes "storable (create_barcode scan)"
    and "\<And>r. r \<in> set tbl \<Longrightarrow> id_pk r < 9223372036854775807"
  shows "create_scan scan now pick tbl =
     (Inr \<lparr>id_pk = key_after tbl, barcode = create_barcode scan, scanned_at = now\<rparr>,
      tbl @ [\<lparr>id_pk = key_after tbl, barcode = create_barcode scan, scanned_at = now\<rparr>])"
proof -
  let ?new = "\<lparr>id_pk = key_after tbl, barcode = create_barcode scan, scanned_at = now\<rparr>"
  from assms(1) have enc: "encodable (create_barcode scan)" by (simp add: storable_def)
  have key: "next_rowid pick tbl = Some (key_after tbl)"
    by (rule next_rowid_below_largest) (rule assms(2))
  have "find (\<lambda>r. id_pk r = key_after tbl) (tbl @ [?new]) = Some ?new"
  proof (rule find_appended)
    fix r assume "r \<in> set tbl"
    then have "id_pk r < key_after tbl" by (rule key_after_greater)
    then show "id_pk r \<noteq> key_after tbl" by simp
  qed simp
  with assms(1) enc key show ?thesis
    by (simp add: create_scan_def SessionLocal_def db_add_def db_commit_def insert_row_def
        db_refresh_def db_close_def Let_def)
qed

lemma create_scan_not_encodable:
  "\<not> encodable (create_barcode scan) \<Longrightarrow>
   create_scan scan now pick tbl = (Inl internal_server_error, tbl)"
  by (simp add: create_scan_def SessionLocal_def db_add_def db_commit_def insert_row_def
      db_close_def Let_def)

subsection \<open>The delete handler\<close>

lemma delete_all_scans_handler_ok:
  "delete_all_scans_handler NoFault (SessionLocal tbl) =
     (Inr \<lparr>message = lit ''Successfully deleted '' @ str_nat (length tbl) @ lit '' scan records.'',
           status = 200\<rparr>, SessionLocal [])"
  by (simp add: delete_all_scans_handler_def SessionLocal_def query_delete_def db_commit_def)

lemma delete_all_scans_ok:
  "delete_all_scans NoFault tbl =
     (Inr \<lparr>message = lit ''Successfully deleted '' @ str_nat (length tbl) @ lit '' scan records.'',
           status = 200\<rparr>, [])"
  by (simp add: delete_all_scans_def delete_all_scans_handler_ok)
    (simp add: SessionLocal_def db_close_def)



lemma delete_all_scans_fault:
  "f \<noteq> NoFault \<Longrightarrow>
   snd (delete_all_scans f tbl) = tbl \<and> (\<exists>d. fst (delete_all_scans f tbl) = Inl (HTTPException 500 d))"
proof (cases f)
  case NoFault
  assume "f \<noteq> NoFault"
  with NoFault show ?thesis by simp
next
  case (DeleteFails e partial r)
  then show ?thesis
    by (cases r)
      (simp_all add: delete_all_scans_def delete_all_scans_handler_def SessionLocal_def
        query_delete_def delete_failed_def db_rollback_def recovery_of_def db_close_def
        internal_server_error_def)
next
  case (CommitFails e r)
  then show ?thesis
    by (cases r)
      (simp_all add: delete_all_scans_def delete_all_scans_handler_def SessionLocal_def
        query_delete_def db_commit_def delete_failed_def db_rollback_def recovery_of_def
        db_close_def internal_server_error_def)
qed

subsection \<open>A table of rows at increasing times\<close>

lemma dt_key_clock_le: "dt_key (clock i) \<le> dt_key (clock j) \<longleftrightarrow> i \<le> j"
  by (auto simp: clock_def mk_datetime_def dt_key_def)

lemma dt_key_clock_less: "dt_key (clock i) < dt_key (clock j) \<longleftrightarrow> i < j"
  by (auto simp: clock_def mk_datetime_def dt_key_def)

lemma length_rows_upto: "length (rows_upto n) = n"
  by (induction n) simp_all

lemma rows_upto_elem:
  "r \<in> set (rows_upto n) \<Longrightarrow> \<exists>i. 1 \<le> i \<and> i \<le> n \<and> r = scan_row i"
  by (induction n) (auto intro: le_SucI)

lemma scan_row_in_rows_upto: "1 \<le> i \<Longrightarrow> i \<le> n \<Longrightarrow> scan_row i \<in> set (rows_upto n)"
  by (induction n) (auto simp: le_Suc_eq)

lemma rows_upto_dropped:
  "r \<in> set (drop k (rows_upto n)) \<Longrightarrow> \<exists>i. k < i \<and> r = scan_row i"
proof (induction n)
  case 0
  then show ?case by simp
next
  case (Suc n)
  from Suc.prems consider "r \<in> set (drop k (rows_upto n))" |
    "r \<in> set (drop (k - n) [scan_row (Suc n)])"
    by (auto simp: length_rows_upto)
  then show ?case
  proof cases
    case 1
    then show ?thesis by (rule Suc.IH)
  next
    case 2
    then have "k - n = 0" "r = scan_row (Suc n)" by (auto split: if_splits simp: drop_Cons')
    then show ?thesis by (intro exI[of _ "Suc n"]) simp
  qed
qed

lemma insert_desc_oldest:
  "(\<And>y. y \<in> set ys \<Longrightarrow> \<not> dt_key (scanned_at y) \<le> dt_key (scanned_at x)) \<Longrightarrow>
   insert_desc x ys = ys @ [x]"
  by (induction ys) auto

lemma order_rows_upto_onto:
  "(\<And>y. y \<in> set acc \<Longrightarrow> \<exists>j. n < j \<and> y = scan_row j) \<Longrightarrow>
   foldr insert_desc (rows_upto n) acc = acc @ rev (rows_upto n)"
proof (induction n arbitrary: acc)
  case 0
  show ?case by simp
next
  case (Suc n)
  have "insert_desc (scan_row (Suc n)) acc = acc @ [scan_row (Suc n)]"
  proof (rule insert_desc_oldest)
    fix y assume "y \<in> set acc"
    then obtain j where "Suc n < j" "y = scan_row j" using Suc.prems by blast
    then show "\<not> dt_key (scanned_at y) \<le> dt_key (scanned_at (scan_row (Suc n)))"
      by (simp add: scan_row_def dt_key_clock_le)
  qed
  moreover have "foldr insert_desc (rows_upto n) (acc @ [scan_row (Suc n)]) =
      (acc @ [scan_row (Suc n)]) @ rev (rows_upto n)"
  proof (rule Suc.IH)
    fix y assume "y \<in> set (acc @ [scan_row (Suc n)])"
    then consider "y \<in> set acc" | "y = scan_row (Suc n)" by auto
    then show "\<exists>j. n < j \<and> y = scan_row j"
    proof cases
      case 1
      then obtain j where "Suc n < j" "y = scan_row j" using Suc.prems by blast
      then show ?thesis by (intro exI[of _ j]) simp
    next
      case 2
      then show ?thesis by (intro exI[of _ "Suc n"]) simp
    qed
  qed
  ultimately show ?case by simp
qed

lemma order_desc_rows_upto: "sqlite_order_desc (rows_upto n) = rev (rows_upto n)"
  unfolding sqlite_order_desc_def
  using order_rows_upto_onto [of "[]" n] by simp

lemma rows_upto_in_range:
  assumes "n < m"
  shows "filter (selected (Some (clock 0)) (Some (clock m)) None) (rows_upto n) = rows_upto n"
proof -
  have "selected (Some (clock 0)) (Some (clock m)) None r" if "r \<in> set (rows_upto n)" for r
  proof -
    from that obtain i where "i \<le> n" "r = scan_row i" using rows_upto_elem by blast
    with assms show ?thesis
      by (simp add: selected_dates scan_row_def dt_key_clock_le dt_key_clock_less)
  qed
  then show ?thesis by simp
qed

lemma default_page_of_101:
  "fst (read_scans 0 100 (Some (clock 0)) (Some (clock 200)) None (rows_upto 101)) =
     Inr (rev (drop 1 (rows_upto 101)))"
proof -
  have "sqlite_integer 0" "sqlite_integer 100" "pattern_accepted None"
    by (simp_all add: sqlite_integer_def pattern_accepted_def)
  then have "fst (read_scans 0 100 (Some (clock 0)) (Some (clock 200)) None (rows_upto 101)) =
      Inr (page_of 0 100 (rev (rows_upto 101)))"
    by (simp add: read_scans_accepted rows_upto_in_range order_desc_rows_upto)
  also have "page_of 0 100 (rev (rows_upto 101)) = rev (drop 1 (rows_upto 101))"
    by (simp add: page_of_def take_rev length_rows_upto)
  finally show ?thesis .
qed

lemma first_row_dropped: "scan_row 1 \<notin> set (rev (drop 1 (rows_upto 101)))"
proof
  assume "scan_row 1 \<in> set (rev (drop 1 (rows_upto 101)))"
  then have "scan_row 1 \<in> set (drop 1 (rows_upto 101))" by simp
  then obtain i where "1 < i" "scan_row 1 = scan_row i" using rows_upto_dropped by blast
  then show False by (simp add: scan_row_def)
qed

subsection \<open>The newest row\<close>

lemma order_by_newest_onto:
  "(\<And>r. r \<in> set rs \<Longrightarrow> dt_key (scanned_at r) < dt_key (scanned_at x)) \<Longrightarrow>
   foldr insert_desc rs (x # acc) = x # foldr insert_desc rs acc"
proof (induction rs)
  case Nil
  show ?case by simp
next
  case (Cons r rs)
  have "dt_key (scanned_at r) < dt_key (scanned_at x)" by (rule Cons.prems) simp
  then have "\<not> dt_key (scanned_at x) \<le> dt_key (scanned_at r)" by simp
  moreover have "foldr insert_desc rs (x # acc) = x # foldr insert_desc rs acc"
    by (rule Cons.IH) (simp add: Cons.prems)
  ultimately show ?case by simp
qed

lemma order_by_newest_last:
  "(\<And>r. r \<in> set rs \<Longrightarrow> dt_key (scanned_at r) < dt_key (scanned_at x)) \<Longrightarrow>
   sqlite_order_desc (rs @ [x]) = x # sqlite_order_desc rs"
  unfolding sqlite_order_desc_def
  using order_by_newest_onto [of rs x "[]"] by simp

lemma first_row_on_page:
  "skip \<le> 0 \<Longrightarrow> limit \<noteq> 0 \<Longrightarrow> x \<in> set (page_of skip limit (x # rs))"
  unfolding page_of_def
  by (cases "nat limit") auto

subsection \<open>Creating a scan\<close>

lemma next_rowid_fresh:
  assumes "next_rowid pick tbl = Some k" "r \<in> set tbl"
  shows "id_pk r \<noteq> k"
proof (cases tbl)
  case Nil
  with assms(2) show ?thesis by simp
next
  case (Cons r0 rs)
  show ?thesis
  proof (cases "fold max (map id_pk rs) (id_pk r0) < 9223372036854775807")
    case True
    with Cons assms(1) have "key_after tbl = k"
      by (simp add: next_rowid_def key_after_def Let_def)
    moreover from assms(2) have "id_pk r < key_after tbl" by (rule key_after_greater)
    ultimately show ?thesis by simp
  next
    case False
    with Cons assms(1) have "k \<notin> set (map id_pk tbl)"
      by (auto simp: next_rowid_def Let_def split: option.splits if_splits)
    with assms(2) show ?thesis by auto
  qed
qed

lemma create_scan_keyed:
  assumes "storable (create_barcode scan)" "next_rowid pick tbl = Some k"
  shows "create_scan scan now pick tbl =
     (Inr \<lparr>id_pk = k, barcode = create_barcode scan, scanned_at = now\<rparr>,
      tbl @ [\<lparr>id_pk = k, barcode = create_barcode scan, scanned_at = now\<rparr>])"
proof -
  let ?new = "\<lparr>id_pk = k, barcode = create_barcode scan, scanned_at = now\<rparr>"
  from assms(1) have enc: "encodable (create_barcode scan)" by (simp add: storable_def)
  have "find (\<lambda>r. id_pk r = k) (tbl @ [?new]) = Some ?new"
  proof (rule find_appended)
    fix r assume "r \<in> set tbl"
    with assms(2) show "id_pk r \<noteq> k" by (rule next_rowid_fresh)
  qed simp
  with assms enc show ?thesis
    by (simp add: create_scan_def SessionLocal_def db_add_def db_commit_def insert_row_def
        db_refresh_def db_close_def Let_def)
qed

lemma post_scans_valid:
  "json_get (lit ''barcode'') body = Some (JStr b) \<Longrightarrow>
   post_scans body now pick tbl = create_scan (ScanCreate b) now pick tbl"
  by (simp add: post_scans_def validate_ScanCreate_def)

lemma storable_short:
  "encodable b \<Longrightarrow> length b \<le> 1000 \<Longrightarrow> storable b"
proof -
  assume enc: "encodable b" and len: "length b \<le> 1000"
  have "utf8_len b \<le> 4 * length b"
    unfolding utf8_len_def by (induction b) (simp_all add: utf8_char_len_def)
  with len have "utf8_len b \<le> 4000" by simp
  with enc show ?thesis by (simp add: storable_def row_bytes_def varint_len_def)
qed

subsection \<open>The export\<close>











section \<open>The claims\<close>

text \<open>
  Claim C1, as amended. Let \<open>q\<close> be a filter string that is not empty, holds no \<^verbatim>\<open>%\<close>, no
  \<^verbatim>\<open>_\<close> and no NUL, has a UTF-8 encoding and at most 49998 bytes in it, and let \<open>skip\<close> and
  \<open>limit\<close> be signed integers of 64 bits. Then the listing with \<open>barcode = q\<close> returns the
  page of \<open>skip\<close> and \<open>limit\<close> of a sequence that holds exactly the records whose barcode,
  read up to its first NUL, contains \<open>q\<close> as a contiguous run when ASCII letters are
  compared without regard to case and U+FFFE, U+FFFF and the surrogates as U+FFFD; the
  sequence is in descending order of \<open>scanned_at\<close>, and a page that covers it is the
  sequence itself.
\<close>

theorem barcode_filter_listing:
  assumes "plain_pattern q" "sqlite_integer skip" "sqlite_integer limit"
  shows "\<exists>S. read_scans skip limit None None (Some q) tbl = (Inr (page_of skip limit S), tbl) \<and>
             mset S = mset (filter (\<lambda>r. contains_folded q (barcode r)) tbl) \<and>
             descending S \<and>
             (page_covers skip limit (length S) \<longrightarrow> page_of skip limit S = S)"
proof -
  let ?S = "sqlite_order_desc (filter (selected None None (Some q)) tbl)"
  from assms have "read_scans skip limit None None (Some q) tbl = (Inr (page_of skip limit ?S), tbl)"
    by (simp add: read_scans_accepted plain_pattern_accepted)
  moreover from assms(1)
  have "mset ?S = mset (filter (\<lambda>r. contains_folded q (barcode r)) tbl)"
    by (simp add: mset_order_desc selected_barcode)
  moreover have "descending ?S" by (rule descending_order_desc)
  moreover have "page_covers skip limit (length ?S) \<longrightarrow> page_of skip limit ?S = ?S"
    by (simp add: page_covers_all)
  ultimately show ?thesis by blast
qed

theorem barcode_filter_listing_witness:
  "fst (read_scans 0 100 None None (Some (lit ''b1''))
          [\<lparr>id_pk = 1, barcode = lit ''AB12'', scanned_at = clock 1\<rparr>,
           \<lparr>id_pk = 2, barcode = lit ''CD34'', scanned_at = clock 2\<rparr>]) =
     Inr [\<lparr>id_pk = 1, barcode = lit ''AB12'', scanned_at = clock 1\<rparr>]"
proof -
  let ?r1 = "\<lparr>id_pk = 1, barcode = lit ''AB12'', scanned_at = clock 1\<rparr>"
  let ?r2 = "\<lparr>id_pk = 2, barcode = lit ''CD34'', scanned_at = clock 2\<rparr>"
  have q: "plain_pattern (lit ''b1'')"
    by (simp add: plain_pattern_def lit_def encodable_def utf8_char_ok_def utf8_len_def
        utf8_char_len_def)
  have i: "sqlite_integer 0" "sqlite_integer 100" by (simp_all add: sqlite_integer_def)
  have f: "filter (\<lambda>r. contains_folded (lit ''b1'') (barcode r)) [?r1, ?r2] = [?r1]"
    by (simp add: contains_folded_def like_fold_def ascii_lower_def sqlite_char_def lit_def)
  from barcode_filter_listing [OF q i, of "[?r1, ?r2]"] obtain S
    where page: "read_scans 0 100 None None (Some (lit ''b1'')) [?r1, ?r2] =
        (Inr (page_of 0 100 S), [?r1, ?r2])"
      and "mset S = mset (filter (\<lambda>r. contains_folded (lit ''b1'') (barcode r)) [?r1, ?r2])"
    by blast
  then have "mset S = mset [?r1]" by (simp only: f)
  then have "S = [?r1]" by simp
  with page show ?thesis by (simp add: page_of_def)
qed

theorem barcode_filter_case_counterexample:
  "fst (read_scans 0 100 None None (Some (lit ''abc''))
          [\<lparr>id_pk = 1, barcode = lit ''ABC'', scanned_at = clock 1\<rparr>]) =
     Inr [\<lparr>id_pk = 1, barcode = lit ''ABC'', scanned_at = clock 1\<rparr>] \<and>
   \<not> contains_substring (lit ''abc'') (lit ''ABC'')"
proof -
  let ?r = "\<lparr>id_pk = 1, barcode = lit ''ABC'', scanned_at = clock 1\<rparr>"
  have q: "plain_pattern (lit ''abc'')"
    by (simp add: plain_pattern_def lit_def encodable_def utf8_char_ok_def utf8_len_def
        utf8_char_len_def)
  have i: "sqlite_integer 0" "sqlite_integer 100" by (simp_all add: sqlite_integer_def)
  have "filter (selected None None (Some (lit ''abc''))) [?r] = [?r]"
    by (simp add: selected_barcode [OF q])
      (simp add: contains_folded_def like_fold_def ascii_lower_def sqlite_char_def lit_def)
  with i q have "fst (read_scans 0 100 None None (Some (lit ''abc'')) [?r]) = Inr [?r]"
    by (simp add: read_scans_accepted plain_pattern_accepted sqlite_order_desc_def page_of_def)
  moreover have "\<not> contains_substring (lit ''abc'') (lit ''ABC'')"
    by (simp add: lit_def)
  ultimately show ?thesis by simp
qed

text \<open>
  Claim C2, as amended. For every table, all timestamps \<open>T1\<close> and \<open>T2\<close>, and \<open>skip\<close> and
  \<open>limit\<close> that are signed integers of 64 bits, the listing with \<open>start_date = T1\<close> and
  \<open>end_date = T2\<close> returns the page of \<open>skip\<close> and \<open>limit\<close> of a sequence that holds exactly
  the records with \<open>T1 \<le> scanned_at < T2\<close>, the lower bound inclusive and the upper bound
  exclusive, in descending order of \<open>scanned_at\<close>. A page that covers the sequence is the
  sequence itself, so that then exactly these records are returned.
\<close>

theorem date_range_listing:
  assumes "sqlite_integer skip" "sqlite_integer limit"
  shows "\<exists>S. read_scans skip limit (Some T1) (Some T2) None tbl =
               (Inr (page_of skip limit S), tbl) \<and>
             mset S = mset (filter (\<lambda>r. dt_key T1 \<le> dt_key (scanned_at r) \<and>
                                        dt_key (scanned_at r) < dt_key T2) tbl) \<and>
             descending S \<and>
             (page_covers skip limit (length S) \<longrightarrow> page_of skip limit S = S)"
proof -
  let ?S = "sqlite_order_desc (filter (selected (Some T1) (Some T2) None) tbl)"
  have "pattern_accepted None" by (simp add: pattern_accepted_def)
  with assms have "read_scans skip limit (Some T1) (Some T2) None tbl =
      (Inr (page_of skip limit ?S), tbl)"
    by (simp add: read_scans_accepted)
  moreover have "mset ?S = mset (filter (\<lambda>r. dt_key T1 \<le> dt_key (scanned_at r) \<and>
      dt_key (scanned_at r) < dt_key T2) tbl)"
    by (simp add: mset_order_desc selected_dates)
  moreover have "descending ?S" by (rule descending_order_desc)
  moreover have "page_covers skip limit (length ?S) \<longrightarrow> page_of skip limit ?S = ?S"
    by (simp add: page_covers_all)
  ultimately show ?thesis by blast
qed

theorem date_range_listing_witness:
  "fst (read_scans 0 100 (Some (clock 1)) (Some (clock 2)) None [scan_row 1, scan_row 2]) =
     Inr [scan_row 1]"
proof -
  have i: "sqlite_integer 0" "sqlite_integer 100" by (simp_all add: sqlite_integer_def)
  have f: "filter (\<lambda>r. dt_key (clock 1) \<le> dt_key (scanned_at r) \<and>
      dt_key (scanned_at r) < dt_key (clock 2)) [scan_row 1, scan_row 2] = [scan_row 1]"
    by (simp add: scan_row_def dt_key_clock_le dt_key_clock_less)
  from date_range_listing [OF i, of "clock 1" "clock 2" "[scan_row 1, scan_row 2]"] obtain S
    where page: "read_scans 0 100 (Some (clock 1)) (Some (clock 2)) None
        [scan_row 1, scan_row 2] = (Inr (page_of 0 100 S), [scan_row 1, scan_row 2])"
      and "mset S = mset (filter (\<lambda>r. dt_key (clock 1) \<le> dt_key (scanned_at r) \<and>
        dt_key (scanned_at r) < dt_key (clock 2)) [scan_row 1, scan_row 2])"
    by blast
  then have "mset S = mset [scan_row 1]" by (simp only: f)
  then have "S = [scan_row 1]" by simp
  with page show ?thesis by (simp add: page_of_def)
qed

theorem date_range_default_page_counterexample:
  "fst (read_scans 0 100 (Some (clock 0)) (Some (clock 200)) None (rows_upto 101)) =
     Inr (rev (drop 1 (rows_upto 101))) \<and>
   scan_row 1 \<in> set (rows_upto 101) \<and>
   dt_key (clock 0) \<le> dt_key (scanned_at (scan_row 1)) \<and>
   dt_key (scanned_at (scan_row 1)) < dt_key (clock 200) \<and>
   scan_row 1 \<notin> set (rev (drop 1 (rows_upto 101)))"
proof -
  have "scan_row 1 \<in> set (rows_upto 101)" by (rule scan_row_in_rows_upto) simp_all
  moreover have "dt_key (clock 0) \<le> dt_key (scanned_at (scan_row 1))"
    "dt_key (scanned_at (scan_row 1)) < dt_key (clock 200)"
    by (simp_all add: scan_row_def dt_key_clock_le dt_key_clock_less)
  ultimately show ?thesis
    using default_page_of_101 first_row_dropped by blast
qed




text \<open>
  Claim C4, as amended. For every barcode string submitted to the create operation that
  has a UTF-8 encoding and whose row is within the size limit of the engine, whatever
  else the body of the request holds, and for every table in which the engine finds a
  key \<open>k\<close> for the new row: the operation stores one record more, with that barcode and
  with the server time at the moment of the call as its \<open>scanned_at\<close>, and it returns
  this record, the key \<open>k\<close> included.
\<close>

theorem create_stamps_server_time:
  assumes "json_get (lit ''barcode'') body = Some (JStr b)"
    and "storable b"
    and "next_rowid pick tbl = Some k"
  shows "post_scans body now pick tbl =
     (Inr \<lparr>id_pk = k, barcode = b, scanned_at = now\<rparr>,
      tbl @ [\<lparr>id_pk = k, barcode = b, scanned_at = now\<rparr>])"
proof -
  from assms(1) have "post_scans body now pick tbl = create_scan (ScanCreate b) now pick tbl"
    by (rule post_scans_valid)
  also from assms(2,3) have "\<dots> = (Inr \<lparr>id_pk = k, barcode = b, scanned_at = now\<rparr>,
      tbl @ [\<lparr>id_pk = k, barcode = b, scanned_at = now\<rparr>])"
    using create_scan_keyed [of "ScanCreate b" pick tbl k now] by simp
  finally show ?thesis .
qed

theorem create_stamps_server_time_witness:
  "post_scans [(lit ''barcode'', JStr (lit ''A1'')),
               (lit ''scanned_at'', JStr (lit ''1999-01-01T00:00:00''))]
     (clock 5) None [scan_row 1, scan_row 2] =
     (Inr \<lparr>id_pk = 3, barcode = lit ''A1'', scanned_at = clock 5\<rparr>,
      [scan_row 1, scan_row 2, \<lparr>id_pk = 3, barcode = lit ''A1'', scanned_at = clock 5\<rparr>])"
proof -
  have "json_get (lit ''barcode'') [(lit ''barcode'', JStr (lit ''A1'')),
      (lit ''scanned_at'', JStr (lit ''1999-01-01T00:00:00''))] = Some (JStr (lit ''A1''))"
    by (simp add: lit_def)
  moreover have "storable (lit ''A1'')"
    by (rule storable_short) (simp_all add: lit_def encodable_def utf8_char_ok_def)
  moreover have "next_rowid None [scan_row 1, scan_row 2] = Some 3"
    by (simp add: next_rowid_def scan_row_def)
  ultimately show ?thesis
    using create_stamps_server_time [of "[(lit ''barcode'', JStr (lit ''A1'')),
      (lit ''scanned_at'', JStr (lit ''1999-01-01T00:00:00''))]" "lit ''A1'' " None
      "[scan_row 1, scan_row 2]" 3 "clock 5"]
    by simp
qed

theorem create_lone_surrogate_counterexample:
  "post_scans [(lit ''barcode'', JStr [55296])] (clock 1) None [] =
     (Inl (HTTPException 500 (lit ''Internal Server Error'')), [])"
proof -
  have "json_get (lit ''barcode'') [(lit ''barcode'', JStr [55296])] = Some (JStr [55296])"
    by simp
  then have "post_scans [(lit ''barcode'', JStr [55296])] (clock 1) None [] =
      create_scan (ScanCreate [55296]) (clock 1) None []"
    by (rule post_scans_valid)
  moreover have "\<not> encodable (create_barcode (ScanCreate [55296]))"
    by (simp add: encodable_def utf8_char_ok_def)
  ultimately show ?thesis
    by (simp add: create_scan_not_encodable internal_server_error_def)
qed

text \<open>
  Claim C5, as amended. For every barcode string that has a UTF-8 encoding and whose row
  is within the size limit of the engine, and every table in which no id is the largest
  integer of 64 bits, creating a scan stores and returns a record with that exact
  barcode whose id is one more than the largest id in the table (1 in an empty table),
  so strictly greater than the id of every record that is stored at that time. A
  listing with no filters, with \<open>skip\<close> and \<open>limit\<close> signed integers of 64 bits, then
  includes this record when its page covers the table, and shows it first when the page
  starts at the top (\<open>skip \<le> 0\<close>, \<open>limit \<noteq> 0\<close>) and the new record is newer than every
  stored one. An id that was assigned before can be assigned again: the id depends on
  the stored records alone, and in an empty table, so after a delete-all, it is 1.
\<close>

theorem created_id_exceeds_stored:
  assumes "storable b"
    and "\<forall>r\<in>set tbl. id_pk r < 9223372036854775807"
  shows "\<exists>row. create_scan (ScanCreate b) now pick tbl = (Inr row, tbl @ [row]) \<and>
     barcode row = b \<and> scanned_at row = now \<and>
     id_pk row = key_after tbl \<and>
     (\<forall>r\<in>set tbl. id_pk r < id_pk row) \<and>
     (sqlite_integer skip \<and> sqlite_integer limit \<and>
      page_covers skip limit (length (tbl @ [row])) \<longrightarrow>
        (\<exists>L. fst (read_scans skip limit None None None (tbl @ [row])) = Inr L \<and>
             mset L = mset (tbl @ [row]) \<and> row \<in> set L)) \<and>
     (sqlite_integer skip \<and> sqlite_integer limit \<and> skip \<le> 0 \<and> limit \<noteq> 0 \<and>
      (\<forall>r\<in>set tbl. dt_key (scanned_at r) < dt_key now) \<longrightarrow>
        (\<exists>L. fst (read_scans skip limit None None None (tbl @ [row])) = Inr (row # L)))"
proof -
  let ?row = "\<lparr>id_pk = key_after tbl, barcode = b, scanned_at = now\<rparr>"
  let ?S = "sqlite_order_desc (tbl @ [?row])"
  have listing: "fst (read_scans skip limit None None None (tbl @ [?row])) =
      Inr (page_of skip limit ?S)"
    if "sqlite_integer skip" "sqlite_integer limit"
    using that by (simp add: read_scans_accepted pattern_accepted_def selected_none)
  from assms have "create_scan (ScanCreate b) now pick tbl = (Inr ?row, tbl @ [?row])"
    using create_scan_stored [of "ScanCreate b" tbl now pick] by simp
  moreover have "\<forall>r\<in>set tbl. id_pk r < id_pk ?row"
    by (simp add: key_after_greater)
  moreover have "sqlite_integer skip \<and> sqlite_integer limit \<and>
      page_covers skip limit (length (tbl @ [?row])) \<longrightarrow>
        (\<exists>L. fst (read_scans skip limit None None None (tbl @ [?row])) = Inr L \<and>
             mset L = mset (tbl @ [?row]) \<and> ?row \<in> set L)"
  proof
    assume a: "sqlite_integer skip \<and> sqlite_integer limit \<and>
      page_covers skip limit (length (tbl @ [?row]))"
    then have "page_covers skip limit (length ?S)" by (simp add: length_order_desc)
    then have "page_of skip limit ?S = ?S" by (rule page_covers_all)
    with a have "fst (read_scans skip limit None None None (tbl @ [?row])) = Inr ?S"
      by (simp add: listing)
    moreover have "mset ?S = mset (tbl @ [?row])" by (rule mset_order_desc)
    moreover have "?row \<in> set ?S" by (simp add: set_order_desc)
    ultimately show "\<exists>L. fst (read_scans skip limit None None None (tbl @ [?row])) = Inr L \<and>
             mset L = mset (tbl @ [?row]) \<and> ?row \<in> set L"
      by blast
  qed
  moreover have "sqlite_integer skip \<and> sqlite_integer limit \<and> skip \<le> 0 \<and> limit \<noteq> 0 \<and>
      (\<forall>r\<in>set tbl. dt_key (scanned_at r) < dt_key now) \<longrightarrow>
        (\<exists>L. fst (read_scans skip limit None None None (tbl @ [?row])) = Inr (?row # L))"
  proof
    assume a: "sqlite_integer skip \<and> sqlite_integer limit \<and> skip \<le> 0 \<and> limit \<noteq> 0 \<and>
      (\<forall>r\<in>set tbl. dt_key (scanned_at r) < dt_key now)"
    then have "?S = ?row # sqlite_order_desc tbl"
      by (simp add: order_by_newest_last)
    moreover from a have "\<exists>L. page_of skip limit (?row # sqlite_order_desc tbl) = ?row # L"
      unfolding page_of_def by (cases "nat limit") auto
    ultimately show "\<exists>L. fst (read_scans skip limit None None None (tbl @ [?row])) =
        Inr (?row # L)"
      using a by (auto simp: listing)
  qed
  ultimately show ?thesis by (intro exI [of _ ?row]) simp
qed

theorem created_id_exceeds_stored_witness:
  "create_scan (ScanCreate (lit ''B'')) (clock 9) None [scan_row 1, scan_row 2] =
     (Inr \<lparr>id_pk = 3, barcode = lit ''B'', scanned_at = clock 9\<rparr>,
      [scan_row 1, scan_row 2, \<lparr>id_pk = 3, barcode = lit ''B'', scanned_at = clock 9\<rparr>]) \<and>
   (\<exists>L. fst (read_scans 0 100 None None None
               [scan_row 1, scan_row 2, \<lparr>id_pk = 3, barcode = lit ''B'', scanned_at = clock 9\<rparr>]) =
           Inr (\<lparr>id_pk = 3, barcode = lit ''B'', scanned_at = clock 9\<rparr> # L))"
proof -
  let ?tbl = "[scan_row 1, scan_row 2]"
  let ?new = "\<lparr>id_pk = 3, barcode = lit ''B'', scanned_at = clock 9\<rparr>"
  have s: "storable (lit ''B'')"
    by (rule storable_short) (simp_all add: lit_def encodable_def utf8_char_ok_def)
  have ids: "\<forall>r\<in>set ?tbl. id_pk r < 9223372036854775807" by (simp add: scan_row_def)
  have k: "key_after ?tbl = 3" by (simp add: key_after_def scan_row_def)
  have older: "\<forall>r\<in>set ?tbl. dt_key (scanned_at r) < dt_key (clock 9)"
    by (simp add: scan_row_def dt_key_clock_less)
  have i: "sqlite_integer 0" "sqlite_integer 100" by (simp_all add: sqlite_integer_def)
  from created_id_exceeds_stored [OF s ids, of "clock 9" None 0 100] obtain row
    where c: "create_scan (ScanCreate (lit ''B'')) (clock 9) None ?tbl = (Inr row, ?tbl @ [row])"
      and f: "barcode row = lit ''B''" "scanned_at row = clock 9" "id_pk row = key_after ?tbl"
      and l: "sqlite_integer 0 \<and> sqlite_integer 100 \<and> (0::int) \<le> 0 \<and> (100::int) \<noteq> 0 \<and>
          (\<forall>r\<in>set ?tbl. dt_key (scanned_at r) < dt_key (clock 9)) \<longrightarrow>
          (\<exists>L. fst (read_scans 0 100 None None None (?tbl @ [row])) = Inr (row # L))"
    by blast
  from f k have row: "row = ?new" by (cases row) simp
  have "(0::int) \<le> 0" "(100::int) \<noteq> 0" by simp_all
  with l i older
  have "\<exists>L. fst (read_scans 0 100 None None None (?tbl @ [row])) = Inr (row # L)"
    by blast
  with c show ?thesis unfolding row by simp
qed

theorem id_reused_after_delete_all:
  "create_scan (ScanCreate (lit ''A'')) (clock 1) None [] =
     (Inr \<lparr>id_pk = 1, barcode = lit ''A'', scanned_at = clock 1\<rparr>,
      [\<lparr>id_pk = 1, barcode = lit ''A'', scanned_at = clock 1\<rparr>]) \<and>
   snd (delete_all_scans NoFault [\<lparr>id_pk = 1, barcode = lit ''A'', scanned_at = clock 1\<rparr>]) = [] \<and>
   create_scan (ScanCreate (lit ''B'')) (clock 2) None [] =
     (Inr \<lparr>id_pk = 1, barcode = lit ''B'', scanned_at = clock 2\<rparr>,
      [\<lparr>id_pk = 1, barcode = lit ''B'', scanned_at = clock 2\<rparr>])"
proof -
  have s: "storable (create_barcode (ScanCreate (lit ''A'')))"
    "storable (create_barcode (ScanCreate (lit ''B'')))"
    by (simp_all add: storable_short lit_def encodable_def utf8_char_ok_def)
  have "create_scan (ScanCreate (lit ''A'')) (clock 1) None [] =
     (Inr \<lparr>id_pk = 1, barcode = lit ''A'', scanned_at = clock 1\<rparr>,
      [\<lparr>id_pk = 1, barcode = lit ''A'', scanned_at = clock 1\<rparr>])"
    using create_scan_stored [OF s(1), of "[]" "clock 1" None] by (simp add: key_after_def)
  moreover have "create_scan (ScanCreate (lit ''B'')) (clock 2) None [] =
     (Inr \<lparr>id_pk = 1, barcode = lit ''B'', scanned_at = clock 2\<rparr>,
      [\<lparr>id_pk = 1, barcode = lit ''B'', scanned_at = clock 2\<rparr>])"
    using create_scan_stored [OF s(2), of "[]" "clock 2" None] by (simp add: key_after_def)
  ultimately show ?thesis by (simp add: delete_all_scans_ok)
qed

text \<open>
  Claim C6. After a delete-all that succeeds, a listing without filters returns the
  empty sequence: the plain list call does, and so does every call whose \<open>skip\<close> and
  \<open>limit\<close> are signed integers of 64 bits, and no call returns a record. The count in the
  message of the response, \<^verbatim>\<open>Successfully deleted N scan records.\<close>, is the number of
  records that were stored immediately before. Without a storage failure the operation
  does succeed.
\<close>

theorem delete_all_then_list:
  "(fst (delete_all_scans f tbl) = Inr resp \<longrightarrow>
      reported_count (message resp) = length tbl \<and>
      message resp = lit ''Successfully deleted '' @ str_nat (length tbl) @ lit '' scan records.'' \<and>
      status resp = 200 \<and>
      fst (read_scans 0 100 None None None (snd (delete_all_scans f tbl))) = Inr [] \<and>
      (sqlite_integer skip \<and> sqlite_integer limit \<longrightarrow>
         fst (read_scans skip limit None None None (snd (delete_all_scans f tbl))) = Inr []) \<and>
      (\<forall>L. fst (read_scans skip limit None None None (snd (delete_all_scans f tbl))) = Inr L
           \<longrightarrow> L = [])) \<and>
   (\<exists>r. fst (delete_all_scans NoFault tbl) = Inr r)"
proof
  have empty: "fst (read_scans skip limit None None None []) = Inr []"
    if "sqlite_integer skip" "sqlite_integer limit" for skip limit
    using that by (simp add: read_scans_accepted pattern_accepted_def sqlite_order_desc_def
        page_of_def)
  have plain: "fst (read_scans 0 100 None None None []) = Inr []"
    by (rule empty) (simp_all add: sqlite_integer_def)
  have none: "L = []" if "fst (read_scans skip limit None None None []) = Inr L" for L
    using that read_scans_cases [of skip limit None None None "[]"]
    by (auto simp: sqlite_order_desc_def page_of_def)
  show "fst (delete_all_scans f tbl) = Inr resp \<longrightarrow>
      reported_count (message resp) = length tbl \<and>
      message resp = lit ''Successfully deleted '' @ str_nat (length tbl) @ lit '' scan records.'' \<and>
      status resp = 200 \<and>
      fst (read_scans 0 100 None None None (snd (delete_all_scans f tbl))) = Inr [] \<and>
      (sqlite_integer skip \<and> sqlite_integer limit \<longrightarrow>
         fst (read_scans skip limit None None None (snd (delete_all_scans f tbl))) = Inr []) \<and>
      (\<forall>L. fst (read_scans skip limit None None None (snd (delete_all_scans f tbl))) = Inr L
           \<longrightarrow> L = [])"
  proof
    assume ok: "fst (delete_all_scans f tbl) = Inr resp"
    have f: "f = NoFault"
    proof (rule ccontr)
      assume "f \<noteq> NoFault"
      then have "\<exists>d. fst (delete_all_scans f tbl) = Inl (HTTPException 500 d)"
        by (simp add: delete_all_scans_fault)
      with ok show False by auto
    qed
    with ok have resp: "resp = \<lparr>message = lit ''Successfully deleted '' @ str_nat (length tbl) @
          lit '' scan records.'', status = 200\<rparr>"
      by (simp add: delete_all_scans_ok)
    have tbl: "snd (delete_all_scans f tbl) = []"
      using f by (simp add: delete_all_scans_ok)
    from resp have "reported_count (message resp) = length tbl"
      "message resp = lit ''Successfully deleted '' @ str_nat (length tbl) @ lit '' scan records.''"
      "status resp = 200"
      by (simp_all add: reported_count_message)
    moreover have "fst (read_scans 0 100 None None None (snd (delete_all_scans f tbl))) = Inr []"
      by (simp only: tbl plain)
    moreover have "sqlite_integer skip \<and> sqlite_integer limit \<longrightarrow>
         fst (read_scans skip limit None None None (snd (delete_all_scans f tbl))) = Inr []"
      by (simp add: tbl empty)
    moreover have "\<forall>L. fst (read_scans skip limit None None None
        (snd (delete_all_scans f tbl))) = Inr L \<longrightarrow> L = []"
      using none by (simp add: tbl)
    ultimately show "reported_count (message resp) = length tbl \<and>
      message resp = lit ''Successfully deleted '' @ str_nat (length tbl) @ lit '' scan records.'' \<and>
      status resp = 200 \<and>
      fst (read_scans 0 100 None None None (snd (delete_all_scans f tbl))) = Inr [] \<and>
      (sqlite_integer skip \<and> sqlite_integer limit \<longrightarrow>
         fst (read_scans skip limit None None None (snd (delete_all_scans f tbl))) = Inr []) \<and>
      (\<forall>L. fst (read_scans skip limit None None None (snd (delete_all_scans f tbl))) = Inr L
           \<longrightarrow> L = [])"
      by blast
  qed
  show "\<exists>r. fst (delete_all_scans NoFault tbl) = Inr r"
    by (simp add: delete_all_scans_ok)
qed

theorem delete_all_then_list_witness:
  "reported_count (lit ''Successfully deleted 2 scan records.'') = 2 \<and>
   fst (delete_all_scans NoFault [scan_row 1, scan_row 2]) =
     Inr \<lparr>message = lit ''Successfully deleted 2 scan records.'', status = 200\<rparr> \<and>
   fst (read_scans 0 100 None None None
          (snd (delete_all_scans NoFault [scan_row 1, scan_row 2]))) = Inr []"
proof -
  let ?resp = "\<lparr>message = lit ''Successfully deleted 2 scan records.'', status = 200\<rparr>"
  have ok: "fst (delete_all_scans NoFault [scan_row 1, scan_row 2]) = Inr ?resp"
    by (simp add: delete_all_scans_ok str_nat_small lit_def)
  from delete_all_then_list [of NoFault "[scan_row 1, scan_row 2]" ?resp 0 100]
  have "fst (delete_all_scans NoFault [scan_row 1, scan_row 2]) = Inr ?resp \<longrightarrow>
      reported_count (message ?resp) = length [scan_row 1, scan_row 2] \<and>
      fst (read_scans 0 100 None None None
        (snd (delete_all_scans NoFault [scan_row 1, scan_row 2]))) = Inr []"
    by blast
  with ok show ?thesis by simp
qed

text \<open>
  Claim C7, as amended. A list request whose \<open>skip\<close> and \<open>limit\<close> are signed integers of
  64 bits, and whose barcode filter, if there is one, has a UTF-8 encoding and at most
  49998 bytes in it, returns a sequence; a request with a \<open>skip\<close> or a \<open>limit\<close> outside
  that range fails with the status 500. Every sequence that a list request returns is
  in descending order of \<open>scanned_at\<close>, has at most \<open>limit\<close> records when \<open>limit\<close> is not
  negative, and is empty when \<open>skip\<close> exceeds the size of the filtered result.
\<close>

theorem listing_order_and_page:
  "(fst (read_scans skip limit start_date end_date barcode_query tbl) = Inr L \<longrightarrow>
      descending L \<and>
      (0 \<le> limit \<longrightarrow> int (length L) \<le> limit) \<and>
      (int (length (filter (selected start_date end_date barcode_query) tbl)) < skip \<longrightarrow> L = [])) \<and>
   (sqlite_integer skip \<and> sqlite_integer limit \<and> pattern_accepted barcode_query \<longrightarrow>
      (\<exists>L'. fst (read_scans skip limit start_date end_date barcode_query tbl) = Inr L')) \<and>
   (\<not> sqlite_integer skip \<or> \<not> sqlite_integer limit \<longrightarrow>
      fst (read_scans skip limit start_date end_date barcode_query tbl) =
        Inl (HTTPException 500 (lit ''Internal Server Error'')))"
proof (intro conjI impI)
  let ?S = "sqlite_order_desc (filter (selected start_date end_date barcode_query) tbl)"
  {
    assume "fst (read_scans skip limit start_date end_date barcode_query tbl) = Inr L"
    with read_scans_cases [of skip limit start_date end_date barcode_query tbl]
    have L: "L = page_of skip limit ?S" by auto
    show "descending L"
      unfolding L by (rule descending_page) (rule descending_order_desc)
    {
      assume "0 \<le> limit"
      then show "int (length L) \<le> limit" unfolding L by (rule length_page)
    }
    {
      assume "int (length (filter (selected start_date end_date barcode_query) tbl)) < skip"
      then have "int (length ?S) < skip" by (simp add: length_order_desc)
      then show "L = []" unfolding L by (rule page_beyond)
    }
  }
  {
    assume "sqlite_integer skip \<and> sqlite_integer limit \<and> pattern_accepted barcode_query"
    then show "\<exists>L'. fst (read_scans skip limit start_date end_date barcode_query tbl) = Inr L'"
      by (simp add: read_scans_accepted)
  }
  {
    assume "\<not> sqlite_integer skip \<or> \<not> sqlite_integer limit"
    then show "fst (read_scans skip limit start_date end_date barcode_query tbl) =
        Inl (HTTPException 500 (lit ''Internal Server Error''))"
      by (simp add: read_scans_overflow internal_server_error_def)
  }
qed

theorem listing_order_and_page_witness:
  "fst (read_scans 1 1 None None None (rows_upto 3)) = Inr [scan_row 2] \<and>
   descending [scan_row 2] \<and>
   fst (read_scans 4 1 None None None (rows_upto 3)) = Inr []"
proof -
  have i: "sqlite_integer 1" "sqlite_integer 4" "pattern_accepted None"
    by (simp_all add: sqlite_integer_def pattern_accepted_def)
  have r: "rev (rows_upto 3) = [scan_row 3, scan_row 2, scan_row 1]"
    by (simp add: numeral_3_eq_3 numeral_2_eq_2)
  have one: "fst (read_scans 1 1 None None None (rows_upto 3)) = Inr [scan_row 2]"
    using i by (simp add: read_scans_accepted selected_none order_desc_rows_upto r page_of_def)
  from listing_order_and_page [of 1 1 None None None "rows_upto 3" "[scan_row 2]"] one
  have ordered: "descending [scan_row 2]" by blast
  from listing_order_and_page [of 4 1 None None None "rows_upto 3"] i
  obtain L' where four: "fst (read_scans 4 1 None None None (rows_upto 3)) = Inr L'"
    by blast
  have "int (length (filter (selected None None None) (rows_upto 3))) < 4"
    by (simp add: selected_none length_rows_upto)
  with listing_order_and_page [of 4 1 None None None "rows_upto 3" L'] four
  have "L' = []" by blast
  with one ordered four show ?thesis by simp
qed

theorem skip_overflow_counterexample:
  "fst (read_scans 9223372036854775808 100 None None None []) =
     Inl (HTTPException 500 (lit ''Internal Server Error''))"
  by (simp add: read_scans_overflow sqlite_integer_def internal_server_error_def)






text \<open>
  Claim C10. Listing and exporting never change the stored table: whatever the filters
  and the page, and whether the export succeeds or fails with not-found, the table after
  the call is the table before it.
\<close>

theorem list_and_export_leave_table:
  "snd (read_scans skip limit start_date end_date barcode_query tbl) = tbl \<and>
   snd (export_scans start_date end_date barcode_query tbl) = tbl"
  by (simp add: snd_read_scans snd_export_scans)

theorem list_and_export_leave_table_witness:
  "snd (read_scans 0 100 None None (Some (lit ''A'')) (rows_upto 2)) = rows_upto 2 \<and>
   snd (export_scans None None (Some (lit ''B'')) (rows_upto 2)) = rows_upto 2"
  using list_and_export_leave_table [of 0 100 None None "Some (lit ''A'')" "rows_upto 2"]
    list_and_export_leave_table [of 0 100 None None "Some (lit ''B'')" "rows_upto 2"]
  by simp

end
